theory Spec2Isabelle
  imports Complex_Main "HOL-Library.Word"
begin

section \<open>JavaScript strings\<close>

text \<open>
  A JavaScript string is a sequence of 16-bit code units. Literals of the source are
  written \<open>js ''...''\<close>: every character of an ASCII literal is one code unit.
\<close>

type_synonym jschar = "16 word"
type_synonym jsstring = "jschar list"

definition js :: "string \<Rightarrow> jsstring" where
  "js s = map of_char s"

text \<open>
  \<open>String.prototype.trim\<close> removes, at both ends, the code units of the ECMAScript
  productions WhiteSpace (TAB, VT, FF, SP, NBSP, ZWNBSP and the Unicode category Zs)
  and LineTerminator (LF, CR, LS, PS). All of them lie in the Basic Multilingual Plane,
  so each is a single code unit.
\<close>

definition is_ws :: "jschar \<Rightarrow> bool" where
  "is_ws c = (c \<in> {0x0009, 0x000A, 0x000B, 0x000C, 0x000D, 0x0020, 0x00A0, 0x1680,
                    0x2000, 0x2001, 0x2002, 0x2003, 0x2004, 0x2005, 0x2006, 0x2007,
                    0x2008, 0x2009, 0x200A, 0x2028, 0x2029, 0x202F, 0x205F, 0x3000,
                    0xFEFF})"

definition trim :: "jsstring \<Rightarrow> jsstring" where
  "trim s = rev (dropWhile is_ws (rev (dropWhile is_ws s)))"

section \<open>Data model\<close>

datatype QuadrantKey = Do | Schedule | Delegate | Eliminate

text \<open>
  \<open>type Task\<close>: the optional properties \<open>notes?\<close> and \<open>dueDate?\<close> are options
  (\<open>None\<close> is both a missing property and the value \<open>undefined\<close>). \<open>createdAt\<close>
  holds \<open>Date.now()\<close>, a count of milliseconds.
\<close>

record Task =
  task_id :: jsstring
  title :: jsstring
  "notes" :: "jsstring option"
  "done" :: bool
  createdAt :: int
  dueDate :: "jsstring option"

text \<open>\<open>type BoardState = Record<QuadrantKey, Task[]>\<close>\<close>

type_synonym BoardState = "QuadrantKey \<Rightarrow> Task list"

definition emptyBoard :: BoardState where
  "emptyBoard = (\<lambda>q. [])"

text \<open>
  \<open>Partial<Task>\<close>: each property may be missing (\<open>None\<close>). An optional property of
  \<open>Task\<close> that is present in the patch may hold \<open>undefined\<close> (\<open>Some None\<close>):
  the object spread copies it and so clears the field.
\<close>

record TaskPatch =
  p_id :: "jsstring option"
  p_title :: "jsstring option"
  p_notes :: "jsstring option option"
  p_done :: "bool option"
  p_createdAt :: "int option"
  p_dueDate :: "jsstring option option"

definition no_patch :: TaskPatch where
  "no_patch = \<lparr>p_id = None, p_title = None, p_notes = None, p_done = None,
               p_createdAt = None, p_dueDate = None\<rparr>"

text \<open>The object spread \<open>{ ...t, ...patch }\<close>.\<close>

definition merge :: "Task \<Rightarrow> TaskPatch \<Rightarrow> Task" where
  "merge t p =
     \<lparr>task_id = (case p_id p of None \<Rightarrow> task_id t | Some v \<Rightarrow> v),
      title = (case p_title p of None \<Rightarrow> title t | Some v \<Rightarrow> v),
      notes = (case p_notes p of None \<Rightarrow> notes t | Some v \<Rightarrow> v),
      done = (case p_done p of None \<Rightarrow> done t | Some v \<Rightarrow> v),
      createdAt = (case p_createdAt p of None \<Rightarrow> createdAt t | Some v \<Rightarrow> v),
      dueDate = (case p_dueDate p of None \<Rightarrow> dueDate t | Some v \<Rightarrow> v)\<rparr>"

section \<open>Identifiers\<close>

text \<open>\<open>Number.prototype.toString(16)\<close> on a non-negative integer.\<close>

definition hexdigit :: "nat \<Rightarrow> jschar" where
  "hexdigit d = of_char (''0123456789abcdef'' ! d)"

function toString16 :: "nat \<Rightarrow> jsstring" where
  "toString16 n = (if n < 16 then [hexdigit n]
                   else toString16 (n div 16) @ [hexdigit (n mod 16)])"
  by pat_completeness auto
termination
  by (relation "measure (\<lambda>n. n)") auto

declare toString16.simps [simp del]

text \<open>
  What the two calls into the runtime give to one \<open>addTask\<close>: \<open>random16\<close> is the text
  \<open>Math.random().toString(16)\<close> (such as \<open>0.8a3f\<close>), \<open>now_uid\<close> the \<open>Date.now()\<close>
  read inside \<open>uid\<close>, \<open>now_task\<close> the one read for \<open>createdAt\<close>.
\<close>

record Env =
  random16 :: jsstring
  now_uid :: nat
  now_task :: nat

text \<open>
  \<open>Math.random().toString(16).slice(2) + "-" + Date.now().toString(16)\<close>
\<close>

definition uid :: "Env \<Rightarrow> jsstring" where
  "uid e = drop 2 (random16 e) @ js ''-'' @ toString16 (now_uid e)"

section \<open>Operations of the board\<close>

text \<open>
  Each operation is the function from the previous board to the next one that the
  handler gives to \<open>setBoard\<close>; where the handler returns before \<open>setBoard\<close> the
  board stays as it is.
\<close>

definition addTask ::
  "QuadrantKey \<Rightarrow> jsstring \<Rightarrow> jsstring option \<Rightarrow> jsstring option \<Rightarrow> Env
     \<Rightarrow> BoardState \<Rightarrow> BoardState" where
  "addTask q ttl nts due e prev =
     (let clean = trim ttl in
      if clean = [] then prev
      else
        let task = \<lparr>task_id = uid e,
                    title = clean,
                    notes = (case nts of None \<Rightarrow> None
                             | Some n \<Rightarrow> if trim n = [] then None else Some (trim n)),
                    done = False,
                    createdAt = int (now_task e),
                    dueDate = (case due of None \<Rightarrow> None
                               | Some d \<Rightarrow> if d = [] then None else Some d)\<rparr>
        in prev(q := task # prev q))"

definition updateTask :: "QuadrantKey \<Rightarrow> jsstring \<Rightarrow> TaskPatch \<Rightarrow> BoardState \<Rightarrow> BoardState" where
  "updateTask q taskId patch prev =
     prev(q := map (\<lambda>t. if task_id t = taskId then merge t patch else t) (prev q))"

definition deleteTask :: "QuadrantKey \<Rightarrow> jsstring \<Rightarrow> BoardState \<Rightarrow> BoardState" where
  "deleteTask q taskId prev = prev(q := filter (\<lambda>t. task_id t \<noteq> taskId) (prev q))"

definition clearCompleted :: "QuadrantKey \<Rightarrow> BoardState \<Rightarrow> BoardState" where
  "clearCompleted q prev = prev(q := filter (\<lambda>t. \<not> done t) (prev q))"

definition moveTask :: "QuadrantKey \<Rightarrow> QuadrantKey \<Rightarrow> jsstring \<Rightarrow> BoardState \<Rightarrow> BoardState" where
  "moveTask from to taskId prev =
     (if from = to then prev
      else case find (\<lambda>t. task_id t = taskId) (prev from) of
             None \<Rightarrow> prev
           | Some task \<Rightarrow>
               prev(from := filter (\<lambda>t. task_id t \<noteq> taskId) (prev from),
                    to := task # prev to))"

text \<open>\<open>confirmReset\<close> (the board part): \<open>setBoard(emptyBoard())\<close>.\<close>

definition confirmReset :: "BoardState \<Rightarrow> BoardState" where
  "confirmReset prev = emptyBoard"

section \<open>Example values\<close>

definition mk_task :: "string \<Rightarrow> string \<Rightarrow> bool \<Rightarrow> Task" where
  "mk_task i ttl d = \<lparr>task_id = js i, title = js ttl, notes = None, done = d,
                       createdAt = 1700000000000, dueDate = None\<rparr>"

definition board1 :: BoardState where
  "board1 = emptyBoard(Do := [mk_task ''a1'' ''Call dentist'' False, mk_task ''b2'' ''Pay rent'' True],
                       Schedule := [mk_task ''c3'' ''Plan trip'' False])"

definition task_x :: Task where
  "task_x = \<lparr>task_id = js ''a1'', title = js ''Call dentist'', notes = Some (js ''X''),
             done = False, createdAt = 1700000000000, dueDate = Some (js ''2025-01-01'')\<rparr>"

definition board2 :: BoardState where
  "board2 = emptyBoard(Do := [mk_task ''b2'' ''Pay rent'' True, task_x],
                       Delegate := [mk_task ''c3'' ''Plan trip'' False])"

definition env1 :: Env where
  "env1 = \<lparr>random16 = js ''0.8a3f'', now_uid = 4660, now_task = 4661\<rparr>"

section \<open>Handlers of the rows\<close>

text \<open>
  \<open>TaskRow.saveEdit\<close>: the only caller of \<open>onUpdate\<close> that sends a title. It returns
  before the call when the draft title trims to the empty string. \<open>t\<close> is the task of
  the row (\<open>props.task\<close>).
\<close>

definition saveEdit ::
  "QuadrantKey \<Rightarrow> Task \<Rightarrow> jsstring \<Rightarrow> jsstring \<Rightarrow> jsstring \<Rightarrow> BoardState \<Rightarrow> BoardState" where
  "saveEdit q t draftTitle draftNotes draftDue prev =
     (let clean = trim draftTitle in
      if clean = [] then prev
      else updateTask q (task_id t)
             \<lparr>p_id = None,
              p_title = Some clean,
              p_notes = Some (if trim draftNotes = [] then None else Some (trim draftNotes)),
              p_done = None,
              p_createdAt = None,
              p_dueDate = Some (if draftDue = [] then None else Some draftDue)\<rparr>
             prev)"

section \<open>Runs of operations\<close>

text \<open>
  One constructor for each operation the component hands to its children, for
  \<open>saveEdit\<close> and for the reset. The arguments are those of the call; \<open>AddTask\<close>
  carries what the runtime returns during the call.
\<close>

datatype Op =
    AddTask QuadrantKey jsstring "jsstring option" "jsstring option" Env
  | UpdateTask QuadrantKey jsstring TaskPatch
  | SaveEdit QuadrantKey Task jsstring jsstring jsstring
  | DeleteTask QuadrantKey jsstring
  | ClearCompleted QuadrantKey
  | MoveTask QuadrantKey QuadrantKey jsstring
  | ResetAll

fun apply_op :: "Op \<Rightarrow> BoardState \<Rightarrow> BoardState" where
  "apply_op (AddTask q ttl nts due e) b = addTask q ttl nts due e b"
| "apply_op (UpdateTask q x p) b = updateTask q x p b"
| "apply_op (SaveEdit q t dt dn dd) b = saveEdit q t dt dn dd b"
| "apply_op (DeleteTask q x) b = deleteTask q x b"
| "apply_op (ClearCompleted q) b = clearCompleted q b"
| "apply_op (MoveTask f t x) b = moveTask f t x b"
| "apply_op ResetAll b = confirmReset b"

fun run :: "Op list \<Rightarrow> BoardState \<Rightarrow> BoardState" where
  "run [] b = b"
| "run (op # ops) b = run ops (apply_op op b)"

text \<open>All tasks of the board, quadrant after quadrant, and their ids.\<close>

definition all_tasks :: "BoardState \<Rightarrow> Task list" where
  "all_tasks b = b Do @ b Schedule @ b Delegate @ b Eliminate"

definition ids :: "BoardState \<Rightarrow> jsstring list" where
  "ids b = map task_id (all_tasks b)"

text \<open>
  A run is fresh when every \<open>addTask\<close> that adds a task generates an id that is not
  on the board at that moment, and no patch of \<open>updateTask\<close> names the field \<open>id\<close>.
\<close>

fun op_fresh :: "Op \<Rightarrow> BoardState \<Rightarrow> bool" where
  "op_fresh (AddTask q ttl nts due e) b = (trim ttl = [] \<or> uid e \<notin> set (ids b))"
| "op_fresh (UpdateTask q x p) b = (p_id p = None)"
| "op_fresh _ b = True"

fun fresh :: "Op list \<Rightarrow> BoardState \<Rightarrow> bool" where
  "fresh [] b = True"
| "fresh (op # ops) b = (op_fresh op b \<and> fresh ops (apply_op op b))"

text \<open>
  The value of a hexadecimal digit and of a hexadecimal numeral: the inverse of
  \<open>toString16\<close>.
\<close>

definition hexdigit_val :: "jschar \<Rightarrow> nat" where
  "hexdigit_val c =
     (if 0x30 \<le> c \<and> c \<le> 0x39 then unat c - 48
      else if 0x61 \<le> c \<and> c \<le> 0x66 then unat c - 87
      else if 0x41 \<le> c \<and> c \<le> 0x46 then unat c - 55
      else 0)"

definition hexval :: "jsstring \<Rightarrow> nat" where
  "hexval s = foldl (\<lambda>a c. 16 * a + hexdigit_val c) 0 s"

text \<open>
  What \<open>uid\<close> takes from the runtime in one call: the text of the random number
  behind \<open>0.\<close> and the clock. \<open>key_id\<close> is \<open>uid\<close> as a function of that pair,
  \<open>add_keys\<close> lists the pairs of the calls of \<open>addTask\<close> that add a task, and
  \<open>no_id_patch\<close> holds of an operation that is no \<open>updateTask\<close> with a patch
  naming \<open>id\<close>.
\<close>

definition env_key :: "Env \<Rightarrow> jsstring \<times> nat" where
  "env_key e = (drop 2 (random16 e), now_uid e)"

definition key_id :: "jsstring \<times> nat \<Rightarrow> jsstring" where
  "key_id k = fst k @ js ''-'' @ toString16 (snd k)"

fun add_keys :: "Op list \<Rightarrow> (jsstring \<times> nat) list" where
  "add_keys [] = []"
| "add_keys (AddTask q ttl nts due e # ops) =
     (if trim ttl = [] then add_keys ops else env_key e # add_keys ops)"
| "add_keys (op # ops) = add_keys ops"

fun no_id_patch :: "Op \<Rightarrow> bool" where
  "no_id_patch (UpdateTask q x p) = (p_id p = None)"
| "no_id_patch _ = True"

text \<open>A title as the board is meant to store it: trimmed and not empty.\<close>

definition title_ok :: "jsstring \<Rightarrow> bool" where
  "title_ok s = (s \<noteq> [] \<and> trim s = s)"

text \<open>
  A run is guarded when every direct \<open>updateTask\<close> sends no title or a title that is
  trimmed and not empty, as \<open>saveEdit\<close> does.
\<close>

fun op_guarded :: "Op \<Rightarrow> bool" where
  "op_guarded (UpdateTask q x p) = (case p_title p of None \<Rightarrow> True | Some v \<Rightarrow> title_ok v)"
| "op_guarded _ = True"

definition env2 :: Env where
  "env2 = \<lparr>random16 = js ''0.c41'', now_uid = 4662, now_task = 4662\<rparr>"

text \<open>Every stored title is trimmed and not empty.\<close>

definition titles_ok :: "BoardState \<Rightarrow> bool" where
  "titles_ok b = (\<forall>q. \<forall>u \<in> set (b q). title_ok (title u))"

definition ops_ok :: "Op list" where
  "ops_ok = [AddTask Do (js ''Call dentist'') None None env1,
             AddTask Do (js ''Pay rent'') (Some (js ''x'')) None env2,
             UpdateTask Do (js ''8a3f-1234'') (no_patch\<lparr>p_done := Some True\<rparr>),
             MoveTask Do Schedule (js ''8a3f-1234''),
             ClearCompleted Schedule]"

section \<open>Persistence\<close>

subsection \<open>Values and exceptions of the runtime\<close>

text \<open>
  The values \<open>JSON.parse\<close> can return. An object is the list of its own properties in
  insertion order, with distinct names. A number is the rational value of the double
  (\<open>JSON.parse\<close> returns no \<open>NaN\<close>).
\<close>

datatype json =
    JNull
  | JBool bool
  | JNum rat
  | JStr jsstring
  | JArr "json list"
  | JObj "(jsstring \<times> json) list"

text \<open>What a call of the runtime can throw inside the two \<open>try\<close> blocks.\<close>

datatype exn = SyntaxError | TypeError | StorageError

text \<open>
  \<open>ToBoolean\<close> on the result of a property read (\<open>None\<close> is \<open>undefined\<close>): \<open>undefined\<close>,
  \<open>null\<close>, \<open>false\<close>, zero and the empty string are falsy, every array and object is
  truthy.
\<close>

fun truthy :: "json option \<Rightarrow> bool" where
  "truthy None = False"
| "truthy (Some JNull) = False"
| "truthy (Some (JBool b)) = b"
| "truthy (Some (JNum n)) = (n \<noteq> 0)"
| "truthy (Some (JStr s)) = (s \<noteq> [])"
| "truthy (Some (JArr xs)) = True"
| "truthy (Some (JObj kvs)) = True"

definition key_name :: "QuadrantKey \<Rightarrow> jsstring" where
  "key_name q = (case q of Do \<Rightarrow> js ''do'' | Schedule \<Rightarrow> js ''schedule''
                 | Delegate \<Rightarrow> js ''delegate'' | Eliminate \<Rightarrow> js ''eliminate'')"

text \<open>
  The property reads \<open>parsed.do\<close>, \<open>parsed.schedule\<close>, \<open>parsed.delegate\<close> and
  \<open>parsed.eliminate\<close>. On \<open>null\<close> the read throws a TypeError; an object gives its
  own property or \<open>undefined\<close>; a boolean, number, string or array has none of the four
  names, own or inherited, and gives \<open>undefined\<close>.
\<close>

fun read_quadrant :: "json \<Rightarrow> QuadrantKey \<Rightarrow> exn + json option" where
  "read_quadrant JNull q = Inl TypeError"
| "read_quadrant (JObj kvs) q = Inr (map_of kvs (key_name q))"
| "read_quadrant (JBool b) q = Inr None"
| "read_quadrant (JNum n) q = Inr None"
| "read_quadrant (JStr s) q = Inr None"
| "read_quadrant (JArr xs) q = Inr None"

text \<open>Whether a value is an object with an own property of the quadrant's name.\<close>

fun has_key :: "json \<Rightarrow> QuadrantKey \<Rightarrow> bool" where
  "has_key (JObj kvs) q = (key_name q \<in> fst ` set kvs)"
| "has_key _ q = False"

subsection \<open>localStorage\<close>

text \<open>
  The storage area: its items, whether the browser blocks every access to it (storage
  disabled or absent: each call throws) and whether it is full (\<open>setItem\<close> throws).
\<close>

record Storage =
  items :: "jsstring \<rightharpoonup> jsstring"
  blocked :: bool
  full :: bool

definition getItem :: "Storage \<Rightarrow> jsstring \<Rightarrow> exn + jsstring option" where
  "getItem ls k = (if blocked ls then Inl StorageError else Inr (items ls k))"

definition setItem :: "Storage \<Rightarrow> jsstring \<Rightarrow> jsstring \<Rightarrow> exn + Storage" where
  "setItem ls k v =
     (if blocked ls \<or> full ls then Inl StorageError
      else Inr (ls\<lparr>items := (items ls)(k \<mapsto> v)\<rparr>))"

definition removeItem :: "Storage \<Rightarrow> jsstring \<Rightarrow> exn + Storage" where
  "removeItem ls k =
     (if blocked ls then Inl StorageError
      else Inr (ls\<lparr>items := (items ls)(k := None)\<rparr>))"

definition STORAGE_KEY :: jsstring where
  "STORAGE_KEY = js ''eisenhower_matrix_v1''"

subsection \<open>loadState\<close>

text \<open>
  The shape check \<open>!parsed.do || !parsed.schedule || !parsed.delegate ||
  !parsed.eliminate\<close>, read from left to right; \<open>Inr True\<close> when some quadrant is falsy.
\<close>

definition shape_check_fails :: "json \<Rightarrow> exn + bool" where
  "shape_check_fails parsed =
     (case read_quadrant parsed Do of Inl e \<Rightarrow> Inl e
      | Inr d \<Rightarrow> if \<not> truthy d then Inr True else
     (case read_quadrant parsed Schedule of Inl e \<Rightarrow> Inl e
      | Inr s \<Rightarrow> if \<not> truthy s then Inr True else
     (case read_quadrant parsed Delegate of Inl e \<Rightarrow> Inl e
      | Inr g \<Rightarrow> if \<not> truthy g then Inr True else
     (case read_quadrant parsed Eliminate of Inl e \<Rightarrow> Inl e
      | Inr l \<Rightarrow> Inr (\<not> truthy l)))))"

text \<open>
  The body of the \<open>try\<close> block of \<open>loadState\<close>. \<open>JSON_parse\<close> is the runtime's
  \<open>JSON.parse\<close>: \<open>Inl SyntaxError\<close> where it throws. The result \<open>None\<close> is \<open>null\<close>.
\<close>

definition loadState_try :: "(jsstring \<Rightarrow> exn + json) \<Rightarrow> Storage \<Rightarrow> exn + json option" where
  "loadState_try JSON_parse ls =
     (case getItem ls STORAGE_KEY of Inl e \<Rightarrow> Inl e
      | Inr None \<Rightarrow> Inr None
      | Inr (Some raw) \<Rightarrow>
          if raw = [] then Inr None
          else (case JSON_parse raw of Inl e \<Rightarrow> Inl e
                | Inr parsed \<Rightarrow>
                    (case shape_check_fails parsed of Inl e \<Rightarrow> Inl e
                     | Inr True \<Rightarrow> Inr None
                     | Inr False \<Rightarrow> Inr (Some parsed))))"

text \<open>\<open>loadState\<close>: the \<open>catch\<close> turns every exception into \<open>null\<close>.\<close>

definition loadState :: "(jsstring \<Rightarrow> exn + json) \<Rightarrow> Storage \<Rightarrow> json option" where
  "loadState JSON_parse ls =
     (case loadState_try JSON_parse ls of Inl e \<Rightarrow> None | Inr r \<Rightarrow> r)"

subsection \<open>saveState\<close>

text \<open>
  The board as a value of the runtime. A task has its properties in the order of the
  object literal of \<open>addTask\<close>; \<open>JSON.stringify\<close> omits a property that is
  \<open>undefined\<close>, so an absent \<open>notes\<close> or \<open>dueDate\<close> has no entry.
\<close>

definition task_json :: "Task \<Rightarrow> json" where
  "task_json t =
     JObj ([(js ''id'', JStr (task_id t)), (js ''title'', JStr (title t))]
           @ (case notes t of None \<Rightarrow> [] | Some n \<Rightarrow> [(js ''notes'', JStr n)])
           @ (case dueDate t of None \<Rightarrow> [] | Some d \<Rightarrow> [(js ''dueDate'', JStr d)])
           @ [(js ''done'', JBool (done t)), (js ''createdAt'', JNum (of_int (createdAt t)))])"

definition board_json :: "BoardState \<Rightarrow> json" where
  "board_json b =
     JObj [(js ''do'', JArr (map task_json (b Do))),
           (js ''schedule'', JArr (map task_json (b Schedule))),
           (js ''delegate'', JArr (map task_json (b Delegate))),
           (js ''eliminate'', JArr (map task_json (b Eliminate)))]"

text \<open>
  \<open>saveState\<close>: \<open>JSON_stringify\<close> is the runtime's \<open>JSON.stringify\<close>; the \<open>catch\<close>
  ignores a failed write and the storage stays as it was.
\<close>

definition saveState :: "(json \<Rightarrow> jsstring) \<Rightarrow> BoardState \<Rightarrow> Storage \<Rightarrow> Storage" where
  "saveState JSON_stringify state ls =
     (case setItem ls STORAGE_KEY (JSON_stringify (board_json state)) of
        Inl e \<Rightarrow> ls
      | Inr ls' \<Rightarrow> ls')"

subsection \<open>Well-formed boards\<close>

text \<open>
  \<open>type Task\<close> and \<open>type BoardState\<close> as a check on a value: the required properties
  with their types, the optional ones absent or strings; a board has an array of tasks
  under each of the four names.
\<close>

fun is_task :: "json \<Rightarrow> bool" where
  "is_task (JObj kvs) =
     ((case map_of kvs (js ''id'') of Some (JStr s) \<Rightarrow> True | _ \<Rightarrow> False) \<and>
      (case map_of kvs (js ''title'') of Some (JStr s) \<Rightarrow> True | _ \<Rightarrow> False) \<and>
      (case map_of kvs (js ''notes'') of None \<Rightarrow> True | Some (JStr s) \<Rightarrow> True | _ \<Rightarrow> False) \<and>
      (case map_of kvs (js ''done'') of Some (JBool d) \<Rightarrow> True | _ \<Rightarrow> False) \<and>
      (case map_of kvs (js ''createdAt'') of Some (JNum n) \<Rightarrow> True | _ \<Rightarrow> False) \<and>
      (case map_of kvs (js ''dueDate'') of None \<Rightarrow> True | Some (JStr s) \<Rightarrow> True | _ \<Rightarrow> False))"
| "is_task _ = False"

definition is_board :: "json \<Rightarrow> bool" where
  "is_board j =
     (\<forall>q \<in> {Do, Schedule, Delegate, Eliminate}.
        case read_quadrant j q of Inr (Some (JArr ts)) \<Rightarrow> list_all is_task ts | _ \<Rightarrow> False)"

subsection \<open>Sample texts\<close>

text \<open>
  A finite part of \<open>JSON.parse\<close> and of \<open>JSON.stringify\<close>: a few texts with the values
  the runtime gives for them, to run the functions above on.
\<close>

definition text_empty_board :: jsstring where
  \<open>text_empty_board = js ''{"do":[],"schedule":[],"delegate":[],"eliminate":[]}''\<close>

definition text_junk :: jsstring where
  \<open>text_junk = js ''{"do":1,"schedule":"x","delegate":true,"eliminate":{}}''\<close>

definition junk :: json where
  "junk = JObj [(js ''do'', JNum 1), (js ''schedule'', JStr (js ''x'')),
                (js ''delegate'', JBool True), (js ''eliminate'', JObj [])]"

definition text_falsy :: jsstring where
  \<open>text_falsy = js ''{"do":[],"schedule":0,"delegate":[],"eliminate":[]}''\<close>

definition falsy :: json where
  "falsy = JObj [(js ''do'', JArr []), (js ''schedule'', JNum 0),
                 (js ''delegate'', JArr []), (js ''eliminate'', JArr [])]"

definition text_three :: jsstring where
  \<open>text_three = js ''{"do":[],"schedule":[],"delegate":[]}''\<close>

definition three :: json where
  "three = JObj [(js ''do'', JArr []), (js ''schedule'', JArr []), (js ''delegate'', JArr [])]"

definition parse_sample :: "jsstring \<Rightarrow> exn + json" where
  "parse_sample raw =
     (if raw = text_empty_board then Inr (board_json emptyBoard)
      else if raw = text_junk then Inr junk
      else if raw = text_falsy then Inr falsy
      else if raw = text_three then Inr three
      else if raw = js ''null'' then Inr JNull
      else if raw = js ''[]'' then Inr (JArr [])
      else Inl SyntaxError)"

definition stringify_sample :: "json \<Rightarrow> jsstring" where
  "stringify_sample j = (if j = board_json emptyBoard then text_empty_board else js ''null'')"

definition storage0 :: Storage where
  "storage0 = \<lparr>items = Map.empty, blocked = False, full = False\<rparr>"

definition holding :: "jsstring \<Rightarrow> Storage" where
  "holding raw = \<lparr>items = [STORAGE_KEY \<mapsto> raw], blocked = False, full = False\<rparr>"

section \<open>JSON texts\<close>

text \<open>
  \<open>JSON.stringify\<close> and \<open>JSON.parse\<close> are functions of the runtime, not of the
  repository; they are written here after ECMA-262 (\<open>SerializeJSONProperty\<close>,
  \<open>QuoteJSONString\<close>, the JSON grammar). Two things are left out: a number is its exact
  rational value (no rounding to a double), and \<open>Number::toString\<close> is written for
  integers below \<open>10^21\<close> in absolute value, where the runtime prints plain decimal
  digits; these are the numbers a board holds (\<open>createdAt\<close> is \<open>Date.now()\<close>).
\<close>

subsection \<open>Writing\<close>

definition digit_char :: "nat \<Rightarrow> jschar" where
  "digit_char d = of_char (''0123456789'' ! d)"

function show_nat :: "nat \<Rightarrow> jsstring" where
  "show_nat n = (if n < 10 then [digit_char n]
                 else show_nat (n div 10) @ [digit_char (n mod 10)])"
  by pat_completeness auto
termination
  by (relation "measure (\<lambda>n. n)") auto

declare show_nat.simps [simp del]

definition show_int :: "int \<Rightarrow> jsstring" where
  "show_int i = (if i < 0 then 0x2D # show_nat (nat (- i)) else show_nat (nat i))"

text \<open>The text of a number: that of its integer part (see above).\<close>

definition number_text :: "rat \<Rightarrow> jsstring" where
  "number_text r = show_int \<lfloor>r\<rfloor>"

text \<open>
  \<open>QuoteJSONString\<close>: the two-character escapes, \<open>\\uXXXX\<close> (lower case) for the
  other control characters and for a surrogate that is not part of a pair, every other
  code unit as it is.
\<close>

definition is_high :: "jschar \<Rightarrow> bool" where
  "is_high c = (0xD800 \<le> c \<and> c \<le> 0xDBFF)"

definition is_low :: "jschar \<Rightarrow> bool" where
  "is_low c = (0xDC00 \<le> c \<and> c \<le> 0xDFFF)"

definition hex4 :: "jschar \<Rightarrow> jsstring" where
  "hex4 c = [hexdigit (unat c div 4096), hexdigit (unat c div 256 mod 16),
             hexdigit (unat c div 16 mod 16), hexdigit (unat c mod 16)]"

definition unicode_escape :: "jschar \<Rightarrow> jsstring" where
  "unicode_escape c = [0x5C, 0x75] @ hex4 c"

definition escape_unit :: "jschar \<Rightarrow> jsstring" where
  "escape_unit c =
     (if c = 0x08 then [0x5C, 0x62]
      else if c = 0x09 then [0x5C, 0x74]
      else if c = 0x0A then [0x5C, 0x6E]
      else if c = 0x0C then [0x5C, 0x66]
      else if c = 0x0D then [0x5C, 0x72]
      else if c = 0x22 then [0x5C, 0x22]
      else if c = 0x5C then [0x5C, 0x5C]
      else if c < 0x20 then unicode_escape c
      else [c])"

fun quote_units :: "jsstring \<Rightarrow> jsstring" where
  "quote_units [] = []"
| "quote_units [c] = (if is_high c \<or> is_low c then unicode_escape c else escape_unit c)"
| "quote_units (c # d # cs) =
     (if is_high c \<and> is_low d then c # d # quote_units cs
      else if is_high c \<or> is_low c then unicode_escape c @ quote_units (d # cs)
      else escape_unit c @ quote_units (d # cs))"

definition quote :: "jsstring \<Rightarrow> jsstring" where
  "quote s = 0x22 # quote_units s @ [0x22]"

fun commas :: "jsstring list \<Rightarrow> jsstring" where
  "commas [] = []"
| "commas [t] = t"
| "commas (t # u # ts) = t @ 0x2C # commas (u # ts)"

definition member_text :: "jsstring \<times> jsstring \<Rightarrow> jsstring" where
  "member_text kt = quote (fst kt) @ 0x3A # snd kt"

text \<open>\<open>JSON.stringify(value)\<close>, without indentation.\<close>

primrec stringify_json :: "json \<Rightarrow> jsstring" where
  "stringify_json JNull = js ''null''"
| "stringify_json (JBool b) = (if b then js ''true'' else js ''false'')"
| "stringify_json (JNum r) = number_text r"
| "stringify_json (JStr s) = quote s"
| "stringify_json (JArr xs) = 0x5B # commas (map stringify_json xs) @ [0x5D]"
| "stringify_json (JObj kvs) =
     0x7B # commas (map member_text (map (map_prod id stringify_json) kvs)) @ [0x7D]"

subsection \<open>Reading\<close>

definition is_json_ws :: "jschar \<Rightarrow> bool" where
  "is_json_ws c = (c = 0x20 \<or> c = 0x09 \<or> c = 0x0A \<or> c = 0x0D)"

definition skip_ws :: "jsstring \<Rightarrow> jsstring" where
  "skip_ws s = dropWhile is_json_ws s"

definition is_digit :: "jschar \<Rightarrow> bool" where
  "is_digit c = (0x30 \<le> c \<and> c \<le> 0x39)"

definition digits_val :: "jsstring \<Rightarrow> nat" where
  "digits_val s = foldl (\<lambda>a c. 10 * a + (unat c - 48)) 0 s"

definition is_hex :: "jschar \<Rightarrow> bool" where
  "is_hex c = (is_digit c \<or> (0x61 \<le> c \<and> c \<le> 0x66) \<or> (0x41 \<le> c \<and> c \<le> 0x46))"

text \<open>The character after a backslash, other than \<open>u\<close>.\<close>

definition unescape :: "jschar \<Rightarrow> jschar option" where
  "unescape e =
     (if e = 0x22 then Some 0x22
      else if e = 0x5C then Some 0x5C
      else if e = 0x2F then Some 0x2F
      else if e = 0x62 then Some 0x08
      else if e = 0x66 then Some 0x0C
      else if e = 0x6E then Some 0x0A
      else if e = 0x72 then Some 0x0D
      else if e = 0x74 then Some 0x09
      else None)"

text \<open>
  The characters of a string behind its opening quote, up to the closing quote: the
  string and the rest of the text.
\<close>

fun parse_units :: "jsstring \<Rightarrow> (jsstring \<times> jsstring) option" where
  "parse_units [] = None"
| "parse_units (c # cs) =
     (if c = 0x22 then Some ([], cs)
      else if c = 0x5C then
        (case cs of
           [] \<Rightarrow> None
         | e # r \<Rightarrow>
             if e = 0x75 then
               (case r of
                  a # b # x # y # r' \<Rightarrow>
                    if is_hex a \<and> is_hex b \<and> is_hex x \<and> is_hex y
                    then map_option (\<lambda>(s, t). (of_nat (hexval [a, b, x, y]) # s, t))
                           (parse_units r')
                    else None
                | _ \<Rightarrow> None)
             else
               (case unescape e of
                  None \<Rightarrow> None
                | Some u \<Rightarrow> map_option (\<lambda>(s, t). (u # s, t)) (parse_units r)))
      else if c < 0x20 then None
      else map_option (\<lambda>(s, t). (c # s, t)) (parse_units cs))"

text \<open>
  A number: an optional minus, the integer part without a leading zero, an optional
  fraction, an optional exponent.
\<close>

definition parse_fraction :: "jsstring \<Rightarrow> (jsstring \<times> jsstring) option" where
  "parse_fraction s =
     (case s of
        [] \<Rightarrow> Some ([], s)
      | c # r \<Rightarrow>
          if c = 0x2E then
            (if takeWhile is_digit r = [] then None
             else Some (takeWhile is_digit r, dropWhile is_digit r))
          else Some ([], s))"

definition parse_exponent :: "jsstring \<Rightarrow> (int \<times> jsstring) option" where
  "parse_exponent s =
     (case s of
        [] \<Rightarrow> Some (0, s)
      | c # r \<Rightarrow>
          if c = 0x65 \<or> c = 0x45 then
            (let neg = (r \<noteq> [] \<and> hd r = 0x2D);
                 r1 = (if r \<noteq> [] \<and> (hd r = 0x2D \<or> hd r = 0x2B) then tl r else r)
             in if takeWhile is_digit r1 = [] then None
                else Some ((if neg then - 1 else 1) * int (digits_val (takeWhile is_digit r1)),
                           dropWhile is_digit r1))
          else Some (0, s))"

definition scale10 :: "rat \<Rightarrow> int \<Rightarrow> rat" where
  "scale10 x e = (if 0 \<le> e then x * 10 ^ nat e else x / 10 ^ nat (- e))"

definition parse_number :: "jsstring \<Rightarrow> (rat \<times> jsstring) option" where
  "parse_number s =
     (let neg = (s \<noteq> [] \<and> hd s = 0x2D);
          s1 = (if neg then tl s else s);
          ds = takeWhile is_digit s1
      in if ds = [] \<or> (1 < length ds \<and> hd ds = 0x30) then None
         else
           (case parse_fraction (dropWhile is_digit s1) of
              None \<Rightarrow> None
            | Some (fs, s2) \<Rightarrow>
                (case parse_exponent s2 of
                   None \<Rightarrow> None
                 | Some (e, s3) \<Rightarrow>
                     Some ((if neg then - 1 else 1) *
                            scale10 (of_nat (digits_val ds) +
                                     of_nat (digits_val fs) / 10 ^ length fs) e,
                           s3))))"

text \<open>
  A property read by \<open>JSON.parse\<close>: a name that the object already has keeps its place
  and takes the new value.
\<close>

definition put_member :: "(jsstring \<times> json) list \<Rightarrow> jsstring \<Rightarrow> json \<Rightarrow> (jsstring \<times> json) list" where
  "put_member acc k v =
     (if k \<in> fst ` set acc then map (\<lambda>kv. if fst kv = k then (k, v) else kv) acc
      else acc @ [(k, v)])"

text \<open>
  A value, the elements of an array behind its first bracket and the members of an
  object behind its first brace, each with the rest of the text. The first argument
  bounds the depth of the calls; the length of the text is enough.
\<close>

fun parse_value :: "nat \<Rightarrow> jsstring \<Rightarrow> (json \<times> jsstring) option"
  and parse_elems :: "nat \<Rightarrow> json list \<Rightarrow> jsstring \<Rightarrow> (json list \<times> jsstring) option"
  and parse_members ::
    "nat \<Rightarrow> (jsstring \<times> json) list \<Rightarrow> jsstring \<Rightarrow> ((jsstring \<times> json) list \<times> jsstring) option"
where
  "parse_value 0 s = None"
| "parse_value (Suc n) s =
     (case skip_ws s of
        [] \<Rightarrow> None
      | c # r \<Rightarrow>
          if c = 0x22 then map_option (\<lambda>(t, r'). (JStr t, r')) (parse_units r)
          else if c = 0x5B then
            (case skip_ws r of
               [] \<Rightarrow> None
             | d # r' \<Rightarrow>
                 if d = 0x5D then Some (JArr [], r')
                 else map_option (\<lambda>(xs, r''). (JArr xs, r'')) (parse_elems n [] r))
          else if c = 0x7B then
            (case skip_ws r of
               [] \<Rightarrow> None
             | d # r' \<Rightarrow>
                 if d = 0x7D then Some (JObj [], r')
                 else map_option (\<lambda>(kvs, r''). (JObj kvs, r'')) (parse_members n [] r))
          else if c = 0x74 then
            (if take 4 (c # r) = js ''true'' then Some (JBool True, drop 4 (c # r)) else None)
          else if c = 0x66 then
            (if take 5 (c # r) = js ''false'' then Some (JBool False, drop 5 (c # r)) else None)
          else if c = 0x6E then
            (if take 4 (c # r) = js ''null'' then Some (JNull, drop 4 (c # r)) else None)
          else map_option (\<lambda>(x, r'). (JNum x, r')) (parse_number (c # r)))"
| "parse_elems 0 acc s = None"
| "parse_elems (Suc n) acc s =
     (case parse_value n s of
        None \<Rightarrow> None
      | Some (v, r) \<Rightarrow>
          (case skip_ws r of
             [] \<Rightarrow> None
           | d # r' \<Rightarrow>
               if d = 0x2C then parse_elems n (acc @ [v]) r'
               else if d = 0x5D then Some (acc @ [v], r')
               else None))"
| "parse_members 0 acc s = None"
| "parse_members (Suc n) acc s =
     (case skip_ws s of
        [] \<Rightarrow> None
      | q # r \<Rightarrow>
          if q \<noteq> 0x22 then None
          else
            (case parse_units r of
               None \<Rightarrow> None
             | Some (k, r1) \<Rightarrow>
                 (case skip_ws r1 of
                    [] \<Rightarrow> None
                  | col # r2 \<Rightarrow>
                      if col \<noteq> 0x3A then None
                      else
                        (case parse_value n r2 of
                           None \<Rightarrow> None
                         | Some (v, r3) \<Rightarrow>
                             (case skip_ws r3 of
                                [] \<Rightarrow> None
                              | d # r4 \<Rightarrow>
                                  if d = 0x2C then parse_members n (put_member acc k v) r4
                                  else if d = 0x7D then Some (put_member acc k v, r4)
                                  else None)))))"

text \<open>
  \<open>JSON.parse(text)\<close>: one value, with nothing but white space behind it; a
  SyntaxError otherwise.
\<close>

definition parse_json :: "jsstring \<Rightarrow> exn + json" where
  "parse_json s =
     (case parse_value (Suc (length s)) s of
        None \<Rightarrow> Inl SyntaxError
      | Some (j, r) \<Rightarrow> if skip_ws r = [] then Inr j else Inl SyntaxError)"

section \<open>The component and its two effects\<close>

text \<open>
  The calls of the component into the persistence functions, in the order they are
  made; \<open>Save\<close> carries the value that is handed to \<open>saveState\<close>.
\<close>

datatype call = Load | Save json | Remove

text \<open>
  What the React state \<open>board\<close> holds: a board, or a value that \<open>loadState\<close> let
  through and that is no \<open>BoardState\<close>.
\<close>

datatype held = Board BoardState | Other json

fun held_json :: "held \<Rightarrow> json" where
  "held_json (Board b) = board_json b"
| "held_json (Other j) = j"

text \<open>\<open>saveState(board)\<close> on what the state holds.\<close>

fun save_held :: "(json \<Rightarrow> jsstring) \<Rightarrow> held \<Rightarrow> Storage \<Rightarrow> Storage" where
  "save_held JSON_stringify (Board b) ls = saveState JSON_stringify b ls"
| "save_held JSON_stringify (Other j) ls =
     (case setItem ls STORAGE_KEY (JSON_stringify j) of Inl e \<Rightarrow> ls | Inr ls' \<Rightarrow> ls')"

text \<open>
  A value represents a board when it is an object with exactly the four quadrant
  properties, each an array whose elements are, one by one, the tasks of the quadrant:
  objects with exactly the properties of the task, in any order.
\<close>

definition same_props :: "json \<Rightarrow> json \<Rightarrow> bool" where
  "same_props a j =
     (case (a, j) of
        (JObj c, JObj kvs) \<Rightarrow> length kvs = length c \<and> set kvs = set c
      | _ \<Rightarrow> False)"

definition represents :: "BoardState \<Rightarrow> json \<Rightarrow> bool" where
  "represents b j =
     (case j of
        JObj kvs \<Rightarrow>
          length kvs = 4 \<and>
          (\<forall>q \<in> {Do, Schedule, Delegate, Eliminate}.
             case map_of kvs (key_name q) of
               Some (JArr ts) \<Rightarrow> list_all2 (\<lambda>t x. same_props (task_json t) x) (b q) ts
             | _ \<Rightarrow> False)
      | _ \<Rightarrow> False)"

text \<open>
  The state of \<open>EisenhowerMatrix\<close>: the two pieces of React state, the identity of
  the object that \<open>board\<close> holds (a new number for every new object), the values of
  the dependency list \<open>[board, hydrated]\<close> at the last commit (\<open>None\<close> before the
  first one; React compares the board by identity), the storage, and the calls made so
  far.
\<close>

record Component =
  board :: held
  board_obj :: nat
  hydrated :: bool
  rendered :: "(nat \<times> bool) option"
  storage :: Storage
  calls :: "call list"

text \<open>\<open>useState(() => emptyBoard())\<close> and \<open>useState(false)\<close>.\<close>

definition init :: "Storage \<Rightarrow> Component" where
  "init ls = \<lparr>board = Board emptyBoard, board_obj = 0, hydrated = False, rendered = None,
              storage = ls, calls = []\<rparr>"

text \<open>
  The first effect (dependency list \<open>[]\<close>): \<open>loadState\<close>, \<open>setBoard(loaded)\<close> when
  the loaded value is not \<open>null\<close>, \<open>setHydrated(true)\<close>. The loaded value is a new
  object; it is held as the board it represents, or as it is when it represents none.
\<close>

inductive effect1 :: "(jsstring \<Rightarrow> exn + json) \<Rightarrow> Component \<Rightarrow> Component \<Rightarrow> bool"
  for JSON_parse :: "jsstring \<Rightarrow> exn + json" where
  absent: "loadState JSON_parse (storage c) = None \<Longrightarrow>
     effect1 JSON_parse c (c\<lparr>hydrated := True, calls := calls c @ [Load]\<rparr>)"
| loaded_board: "loadState JSON_parse (storage c) = Some j \<Longrightarrow> represents b j \<Longrightarrow>
     effect1 JSON_parse c
       (c\<lparr>board := Board b, board_obj := Suc (board_obj c), hydrated := True,
          calls := calls c @ [Load]\<rparr>)"
| loaded_other: "loadState JSON_parse (storage c) = Some j \<Longrightarrow> \<forall>b. \<not> represents b j \<Longrightarrow>
     effect1 JSON_parse c
       (c\<lparr>board := Other j, board_obj := Suc (board_obj c), hydrated := True,
          calls := calls c @ [Load]\<rparr>)"

text \<open>
  The second effect (dependency list \<open>[board, hydrated]\<close>), with the \<open>board\<close> and
  \<open>hydrated\<close> of the render it belongs to: \<open>if (!hydrated) return; saveState(board)\<close>.
\<close>

definition effect2 :: "(json \<Rightarrow> jsstring) \<Rightarrow> held \<Rightarrow> bool \<Rightarrow> Component \<Rightarrow> Component" where
  "effect2 JSON_stringify v h c =
     (if \<not> h then c
      else c\<lparr>storage := save_held JSON_stringify v (storage c),
             calls := calls c @ [Save (held_json v)]\<rparr>)"

text \<open>
  A commit after the first one: React runs the second effect when \<open>board\<close> is another
  object or \<open>hydrated\<close> another value than at the last commit.
\<close>

definition commit :: "(json \<Rightarrow> jsstring) \<Rightarrow> Component \<Rightarrow> Component" where
  "commit JSON_stringify c =
     (if rendered c = Some (board_obj c, hydrated c) then c
      else (effect2 JSON_stringify (board c) (hydrated c) c)
             \<lparr>rendered := Some (board_obj c, hydrated c)\<rparr>)"

text \<open>
  Whether an operation hands React a new board object: \<open>addTask\<close> and \<open>saveEdit\<close>
  return before \<open>setBoard\<close> on a blank title, \<open>moveTask\<close> returns before it for
  equal quadrants and its updater returns \<open>prev\<close> itself when the task is not found;
  every other updater builds a new object with the spread.
\<close>

fun new_object :: "Op \<Rightarrow> BoardState \<Rightarrow> bool" where
  "new_object (AddTask q ttl nts due e) b = (trim ttl \<noteq> [])"
| "new_object (UpdateTask q x p) b = True"
| "new_object (SaveEdit q t dt dn dd) b = (trim dt \<noteq> [])"
| "new_object (DeleteTask q x) b = True"
| "new_object (ClearCompleted q) b = True"
| "new_object (MoveTask f t x) b = (f \<noteq> t \<and> find (\<lambda>u. task_id u = x) (b f) \<noteq> None)"
| "new_object ResetAll b = True"

text \<open>\<open>confirmReset\<close> beside \<open>setBoard\<close>: the item is removed, a failure ignored.\<close>

definition forget :: "Component \<Rightarrow> Component" where
  "forget c =
     c\<lparr>storage := (case removeItem (storage c) STORAGE_KEY of
                      Inl e \<Rightarrow> storage c | Inr ls \<Rightarrow> ls),
       calls := calls c @ [Remove]\<rparr>"

text \<open>
  A handler. On a board it is the operation. The reset does not read the previous
  state. What any other handler does on a value that is no board is left open: it
  keeps the object, or sets some new one.
\<close>

inductive handle :: "Op \<Rightarrow> Component \<Rightarrow> Component \<Rightarrow> bool" where
  on_board: "board c = Board b \<Longrightarrow> op \<noteq> ResetAll \<Longrightarrow>
     handle op c
       (c\<lparr>board := Board (apply_op op b),
          board_obj := (if new_object op b then Suc (board_obj c) else board_obj c)\<rparr>)"
| reset: "handle ResetAll c
       (forget (c\<lparr>board := Board emptyBoard, board_obj := Suc (board_obj c)\<rparr>))"
| on_other_kept: "board c = Other j \<Longrightarrow> op \<noteq> ResetAll \<Longrightarrow> handle op c c"
| on_other_set: "board c = Other j \<Longrightarrow> op \<noteq> ResetAll \<Longrightarrow>
     handle op c (c\<lparr>board := v, board_obj := Suc (board_obj c)\<rparr>)"

text \<open>
  The steps of the component. \<open>mount\<close> is the first commit: both effects run in the
  order of the source, the second one with the state of the first render. \<open>rerender\<close>
  is a later commit. \<open>event\<close> is one user event after the first commit: the handler
  and the commit of the render it causes, which React finishes before the next event.
\<close>

inductive step ::
  "(jsstring \<Rightarrow> exn + json) \<Rightarrow> (json \<Rightarrow> jsstring) \<Rightarrow> Component \<Rightarrow> Component \<Rightarrow> bool"
  for JSON_parse :: "jsstring \<Rightarrow> exn + json" and JSON_stringify :: "json \<Rightarrow> jsstring" where
  mount: "rendered c = None \<Longrightarrow> effect1 JSON_parse c c1 \<Longrightarrow>
     step JSON_parse JSON_stringify c
       ((effect2 JSON_stringify (board c) (hydrated c) c1)
          \<lparr>rendered := Some (board_obj c, hydrated c)\<rparr>)"
| rerender: "rendered c \<noteq> None \<Longrightarrow>
     step JSON_parse JSON_stringify c (commit JSON_stringify c)"
| event: "rendered c \<noteq> None \<Longrightarrow> handle op c c1 \<Longrightarrow>
     step JSON_parse JSON_stringify c (commit JSON_stringify c1)"

text \<open>The states the component reaches from its initial state over a storage.\<close>

inductive reach ::
  "(jsstring \<Rightarrow> exn + json) \<Rightarrow> (json \<Rightarrow> jsstring) \<Rightarrow> Storage \<Rightarrow> Component \<Rightarrow> bool"
  for JSON_parse :: "jsstring \<Rightarrow> exn + json" and JSON_stringify :: "json \<Rightarrow> jsstring"
    and ls :: Storage where
  reach_init: "reach JSON_parse JSON_stringify ls (init ls)"
| reach_step: "reach JSON_parse JSON_stringify ls c \<Longrightarrow> step JSON_parse JSON_stringify c c'
     \<Longrightarrow> reach JSON_parse JSON_stringify ls c'"

text \<open>No \<open>Save\<close> stands in the list before the first \<open>Load\<close>.\<close>

fun no_early_save :: "call list \<Rightarrow> bool" where
  "no_early_save [] = True"
| "no_early_save (Load # cs) = True"
| "no_early_save (Save v # cs) = False"
| "no_early_save (Remove # cs) = no_early_save cs"

text \<open>
  The invariants of the component: no save before the load, a load behind it once
  \<open>hydrated\<close> is set and no save before that; the load happens in the first commit
  and only there; the board of the last commit is not newer than the board held.
\<close>

definition sound :: "Component \<Rightarrow> bool" where
  "sound c = (no_early_save (calls c) \<and> (hydrated c \<longrightarrow> Load \<in> set (calls c)) \<and>
              (\<not> hydrated c \<longrightarrow> (\<forall>v. Save v \<notin> set (calls c))))"

definition once :: "Component \<Rightarrow> bool" where
  "once c = ((rendered c = None \<longrightarrow> Load \<notin> set (calls c) \<and> \<not> hydrated c) \<and>
             count_list (calls c) Load \<le> 1 \<and>
             (\<forall>r h. rendered c = Some (r, h) \<longrightarrow> r \<le> board_obj c))"

text \<open>
  The component over an empty storage after its first commit, after the commit that
  follows it, and after a first task has been added.
\<close>

definition mounted0 :: Component where
  "mounted0 = (init storage0)\<lparr>hydrated := True, calls := [Load],
                               rendered := Some (0, False)\<rparr>"

definition settled0 :: Component where
  "settled0 = commit stringify_sample mounted0"

definition added0 :: Component where
  "added0 = commit stringify_sample
     (settled0\<lparr>board := Board (apply_op (AddTask Do (js ''Call dentist'') None None env1)
                                emptyBoard),
               board_obj := Suc (board_obj settled0)\<rparr>)"

text \<open>A board with one task, its properties in another order than \<open>board_json\<close> writes.\<close>

definition task_x_reordered :: json where
  "task_x_reordered =
     JObj [(js ''title'', JStr (js ''Call dentist'')), (js ''id'', JStr (js ''a1'')),
           (js ''done'', JBool False), (js ''createdAt'', JNum 1700000000000),
           (js ''dueDate'', JStr (js ''2025-01-01'')), (js ''notes'', JStr (js ''X''))]"

definition board_reordered :: json where
  "board_reordered =
     JObj [(js ''eliminate'', JArr []), (js ''do'', JArr [task_x_reordered]),
           (js ''delegate'', JArr []), (js ''schedule'', JArr [])]"

section \<open>Facts about strings and lists\<close>

lemma unat_of_char: "unat (of_char c :: 16 word) = of_char c"
proof -
  have "(of_char c :: nat) < 256" by (rule nat_of_char_less_256)
  then have lt: "(of_char c :: nat) < 65536" by linarith
  have "(of_char c :: 16 word) = of_nat (of_char c)" by (simp add: of_nat_of_char)
  then have "unat (of_char c :: 16 word) = (of_char c :: nat) mod 65536"
    by (simp add: unat_of_nat del: of_nat_of_char)
  with lt show ?thesis by simp
qed

lemma of_char_word_eq_iff: "((of_char c :: 16 word) = of_char d) = (c = d)"
proof
  assume "(of_char c :: 16 word) = of_char d"
  then have "unat (of_char c :: 16 word) = unat (of_char d :: 16 word)" by simp
  then show "c = d" by (simp add: unat_of_char)
qed simp

lemma js_eq_iff [simp]: "(js s = js t) = (s = t)"
  unfolding js_def by (simp add: inj_map_eq_map inj_on_def of_char_word_eq_iff)

lemma find_Some_mem: "find P xs = Some y \<Longrightarrow> y \<in> set xs \<and> P y"
  by (induction xs) (auto split: if_splits)

lemma filter_id_remove1:
  "distinct (map task_id xs) \<Longrightarrow> find (\<lambda>u. task_id u = x) xs = Some task
     \<Longrightarrow> filter (\<lambda>u. task_id u \<noteq> x) xs = remove1 task xs"
proof (induction xs)
  case Nil
  then show ?case by simp
next
  case (Cons a xs)
  show ?case
  proof (cases "task_id a = x")
    case True
    with Cons.prems have "task = a" by simp
    moreover from True Cons.prems have "x \<notin> task_id ` set xs" by simp
    then have "\<forall>u \<in> set xs. task_id u \<noteq> x" by blast
    then have "filter (\<lambda>u. task_id u \<noteq> x) xs = xs" by (simp add: filter_id_conv)
    ultimately show ?thesis using True by simp
  next
    case False
    with Cons.prems have f: "find (\<lambda>u. task_id u = x) xs = Some task" by simp
    from find_Some_mem [OF f] False have "task \<noteq> a" by auto
    with Cons f False show ?thesis by simp
  qed
qed

lemma rev_dropWhile_rev_prefix:
  "xs = rev (dropWhile P (rev xs)) @ rev (takeWhile P (rev xs))"
proof -
  have "rev (takeWhile P (rev xs) @ dropWhile P (rev xs)) = rev (rev xs)"
    by (simp only: takeWhile_dropWhile_id)
  then show ?thesis by (simp only: rev_append rev_rev_ident)
qed

lemma dropWhile_trim: "dropWhile is_ws (trim s) = trim s"
proof (cases "trim s = []")
  case True
  then show ?thesis by simp
next
  case False
  let ?a = "dropWhile is_ws s"
  have r: "trim s = rev (dropWhile is_ws (rev ?a))" by (simp add: trim_def)
  have pre: "?a = trim s @ rev (takeWhile is_ws (rev ?a))"
    unfolding r by (rule rev_dropWhile_rev_prefix)
  with False have ne: "?a \<noteq> []" by (metis Nil_is_append_conv)
  from pre False have "hd ?a = hd (trim s)" by (metis hd_append2)
  moreover from ne have "\<not> is_ws (hd ?a)" by (rule hd_dropWhile)
  ultimately have "\<not> is_ws (hd (trim s))" by simp
  with False show ?thesis by (cases "trim s") auto
qed

lemma trim_idem: "trim (trim s) = trim s"
proof -
  have "dropWhile is_ws (rev (trim s)) = rev (trim s)"
    by (simp add: trim_def)
  then show ?thesis
    unfolding trim_def [of "trim s"] dropWhile_trim by simp
qed

section \<open>moveTask\<close>

text \<open>
  C1. \<open>moveTask f t x\<close> returns the board unchanged when \<open>f = t\<close>, and also when
  \<open>f \<noteq> t\<close> and no task of quadrant \<open>f\<close> has id \<open>x\<close>. When \<open>f \<noteq> t\<close> and some task of
  \<open>f\<close> has id \<open>x\<close>, the task found (the first of \<open>f\<close> with that id, a member of \<open>f\<close>,
  taken as it is) becomes the head of \<open>t\<close>'s sequence in front of the old sequence,
  \<open>f\<close> loses the tasks with id \<open>x\<close> (which, when the ids of \<open>f\<close> are distinct, is the
  removal of exactly that task), and the two other quadrants are as before.
\<close>

theorem moveTask_spec:
  "(f = t \<longrightarrow> moveTask f t x b = b) \<and>
   (f \<noteq> t \<and> (\<forall>u \<in> set (b f). task_id u \<noteq> x) \<longrightarrow> moveTask f t x b = b) \<and>
   (f \<noteq> t \<and> (\<exists>u \<in> set (b f). task_id u = x) \<longrightarrow>
      (\<exists>task \<in> set (b f). task_id task = x \<and>
          find (\<lambda>u. task_id u = x) (b f) = Some task \<and>
          moveTask f t x b f = filter (\<lambda>u. task_id u \<noteq> x) (b f) \<and>
          (distinct (map task_id (b f)) \<longrightarrow> moveTask f t x b f = remove1 task (b f)) \<and>
          moveTask f t x b t = task # b t \<and>
          (\<forall>q. q \<noteq> f \<and> q \<noteq> t \<longrightarrow> moveTask f t x b q = b q)))"
proof (intro conjI impI)
  assume "f = t"
  then show "moveTask f t x b = b" by (simp add: moveTask_def)
next
  assume a: "f \<noteq> t \<and> (\<forall>u \<in> set (b f). task_id u \<noteq> x)"
  then have "find (\<lambda>u. task_id u = x) (b f) = None" by (simp add: find_None_iff)
  then show "moveTask f t x b = b" by (simp add: moveTask_def)
next
  assume a: "f \<noteq> t \<and> (\<exists>u \<in> set (b f). task_id u = x)"
  then obtain task where f: "find (\<lambda>u. task_id u = x) (b f) = Some task"
    by (cases "find (\<lambda>u. task_id u = x) (b f)") (auto simp: find_None_iff)
  from find_Some_mem [OF f] have m: "task \<in> set (b f)" "task_id task = x" by auto
  from a f have r: "moveTask f t x b =
      b(f := filter (\<lambda>u. task_id u \<noteq> x) (b f), t := task # b t)"
    by (simp add: moveTask_def)
  from a have 1: "moveTask f t x b f = filter (\<lambda>u. task_id u \<noteq> x) (b f)"
    by (simp add: r)
  have 2: "distinct (map task_id (b f)) \<longrightarrow> moveTask f t x b f = remove1 task (b f)"
    using 1 f by (simp add: filter_id_remove1)
  have 3: "moveTask f t x b t = task # b t" by (simp add: r)
  have 4: "\<forall>q. q \<noteq> f \<and> q \<noteq> t \<longrightarrow> moveTask f t x b q = b q" by (simp add: r)
  from m f 1 2 3 4
  show "\<exists>task \<in> set (b f). task_id task = x \<and>
          find (\<lambda>u. task_id u = x) (b f) = Some task \<and>
          moveTask f t x b f = filter (\<lambda>u. task_id u \<noteq> x) (b f) \<and>
          (distinct (map task_id (b f)) \<longrightarrow> moveTask f t x b f = remove1 task (b f)) \<and>
          moveTask f t x b t = task # b t \<and>
          (\<forall>q. q \<noteq> f \<and> q \<noteq> t \<longrightarrow> moveTask f t x b q = b q)"
    by blast
qed

theorem moveTask_spec_witness:
  "moveTask Do Do (js ''a1'') board1 = board1 \<and>
   Do \<noteq> Schedule \<and> (\<exists>u \<in> set (board1 Do). task_id u = js ''a1'') \<and>
   moveTask Do Schedule (js ''zz'') board1 = board1 \<and>
   moveTask Do Schedule (js ''a1'') board1 Do = [mk_task ''b2'' ''Pay rent'' True] \<and>
   moveTask Do Schedule (js ''a1'') board1 Schedule =
     [mk_task ''a1'' ''Call dentist'' False, mk_task ''c3'' ''Plan trip'' False] \<and>
   moveTask Do Schedule (js ''a1'') board1 Delegate = [] \<and>
   moveTask Do Schedule (js ''a1'') board1 Eliminate = []"
  using moveTask_spec [of Do Do "js ''a1''" board1]
    moveTask_spec [of Do Schedule "js ''zz''" board1]
    moveTask_spec [of Do Schedule "js ''a1''" board1]
  by (simp add: board1_def mk_task_def emptyBoard_def)

section \<open>clearCompleted\<close>

text \<open>
  C9. \<open>clearCompleted q\<close> leaves in quadrant \<open>q\<close> the tasks whose \<open>done\<close> flag is
  false, in their previous order and as often as before, removes every task of \<open>q\<close>
  whose flag is true, and leaves the sequences of the three other quadrants as they were.
\<close>

theorem clearCompleted_spec:
  "clearCompleted q b q = filter (\<lambda>t. \<not> done t) (b q) \<and>
   set (clearCompleted q b q) = {t \<in> set (b q). \<not> done t} \<and>
   (\<forall>t \<in> set (b q). done t \<longrightarrow> t \<notin> set (clearCompleted q b q)) \<and>
   (\<forall>t \<in> set (b q). \<not> done t \<longrightarrow>
        count_list (clearCompleted q b q) t = count_list (b q) t) \<and>
   (\<forall>q'. q' \<noteq> q \<longrightarrow> clearCompleted q b q' = b q')"
proof -
  have c: "\<And>xs (t::Task). \<not> done t \<Longrightarrow> count_list (filter (\<lambda>t. \<not> done t) xs) t = count_list xs t"
  proof -
    fix xs and t :: Task
    assume "\<not> done t"
    then show "count_list (filter (\<lambda>t. \<not> done t) xs) t = count_list xs t"
      by (induction xs) auto
  qed
  show ?thesis by (simp add: clearCompleted_def c)
qed

theorem clearCompleted_spec_witness:
  "clearCompleted Do board2 Do = [task_x] \<and>
   done (mk_task ''b2'' ''Pay rent'' True) \<and> \<not> done task_x \<and>
   mk_task ''b2'' ''Pay rent'' True \<in> set (board2 Do) \<and>
   mk_task ''b2'' ''Pay rent'' True \<notin> set (clearCompleted Do board2 Do) \<and>
   count_list (clearCompleted Do board2 Do) task_x = 1 \<and>
   clearCompleted Do board2 Delegate = [mk_task ''c3'' ''Plan trip'' False] \<and>
   clearCompleted Do board2 Schedule = [] \<and>
   clearCompleted Do board2 Eliminate = []"
  using clearCompleted_spec [of Do board2]
  by (simp add: board2_def task_x_def mk_task_def emptyBoard_def)

section \<open>updateTask\<close>

text \<open>
  C3. \<open>updateTask q x p\<close> leaves the board unchanged when no task of quadrant \<open>q\<close>
  has id \<open>x\<close>. In general it keeps the length and the order of \<open>q\<close>'s sequence,
  replaces each task with id \<open>x\<close> by its merge with the patch \<open>p\<close> and keeps every
  other task and every other quadrant. In the merge a field named in \<open>p\<close> takes
  the value of \<open>p\<close> and a field not named keeps its previous value; a patch of
  \<open>done\<close> alone changes nothing but \<open>done\<close>.
\<close>

theorem updateTask_spec:
  "((\<forall>u \<in> set (b q). task_id u \<noteq> x) \<longrightarrow> updateTask q x p b = b) \<and>
   updateTask q x p b q = map (\<lambda>u. if task_id u = x then merge u p else u) (b q) \<and>
   length (updateTask q x p b q) = length (b q) \<and>
   (\<forall>i < length (b q). updateTask q x p b q ! i =
        (if task_id (b q ! i) = x then merge (b q ! i) p else b q ! i)) \<and>
   (\<forall>q'. q' \<noteq> q \<longrightarrow> updateTask q x p b q' = b q') \<and>
   (\<forall>u. task_id (merge u p) = (case p_id p of None \<Rightarrow> task_id u | Some v \<Rightarrow> v) \<and>
        title (merge u p) = (case p_title p of None \<Rightarrow> title u | Some v \<Rightarrow> v) \<and>
        notes (merge u p) = (case p_notes p of None \<Rightarrow> notes u | Some v \<Rightarrow> v) \<and>
        done (merge u p) = (case p_done p of None \<Rightarrow> done u | Some v \<Rightarrow> v) \<and>
        createdAt (merge u p) = (case p_createdAt p of None \<Rightarrow> createdAt u | Some v \<Rightarrow> v) \<and>
        dueDate (merge u p) = (case p_dueDate p of None \<Rightarrow> dueDate u | Some v \<Rightarrow> v)) \<and>
   (\<forall>u v. merge u (no_patch\<lparr>p_done := Some v\<rparr>) = u\<lparr>done := v\<rparr>)"
proof -
  have 1: "(\<forall>u \<in> set (b q). task_id u \<noteq> x) \<longrightarrow> updateTask q x p b = b"
  proof
    assume "\<forall>u \<in> set (b q). task_id u \<noteq> x"
    then have "map (\<lambda>u. if task_id u = x then merge u p else u) (b q) = b q"
      by (simp add: map_idI)
    then show "updateTask q x p b = b" by (simp add: updateTask_def)
  qed
  have 2: "\<forall>u v. merge u (no_patch\<lparr>p_done := Some v\<rparr>) = u\<lparr>done := v\<rparr>"
    by (simp add: merge_def no_patch_def)
  show ?thesis using 1 2 by (simp add: updateTask_def merge_def)
qed

theorem updateTask_spec_witness:
  "updateTask Do (js ''a1'') (no_patch\<lparr>p_done := Some True\<rparr>) board2 Do =
     [mk_task ''b2'' ''Pay rent'' True,
      \<lparr>task_id = js ''a1'', title = js ''Call dentist'', notes = Some (js ''X''),
       done = True, createdAt = 1700000000000, dueDate = Some (js ''2025-01-01'')\<rparr>] \<and>
   updateTask Do (js ''a1'') (no_patch\<lparr>p_done := Some True\<rparr>) board2 Delegate =
     [mk_task ''c3'' ''Plan trip'' False] \<and>
   updateTask Schedule (js ''a1'') (no_patch\<lparr>p_done := Some True\<rparr>) board2 = board2"
  using updateTask_spec [of board2 Do "js ''a1''" "no_patch\<lparr>p_done := Some True\<rparr>"]
    updateTask_spec [of board2 Schedule "js ''a1''" "no_patch\<lparr>p_done := Some True\<rparr>"]
  by (simp add: board2_def task_x_def mk_task_def emptyBoard_def)

section \<open>addTask\<close>

text \<open>
  C2. When the title trims to the empty string \<open>addTask\<close> returns the board
  unchanged. Otherwise quadrant \<open>q\<close> gets one new task in front of its previous
  sequence: its title is the trimmed input, \<open>done\<close> is false, its id is the
  generated one, its notes are absent when the given notes are missing or trim to the
  empty string (and the trimmed notes otherwise), its due date is absent when none or
  the empty string is given; the three other quadrants are unchanged.
\<close>

theorem addTask_spec:
  "(trim ttl = [] \<longrightarrow> addTask q ttl nts due e b = b) \<and>
   (trim ttl \<noteq> [] \<longrightarrow>
      (\<exists>task. addTask q ttl nts due e b q = task # b q \<and>
          task_id task = uid e \<and>
          title task = trim ttl \<and>
          \<not> done task \<and>
          createdAt task = int (now_task e) \<and>
          ((nts = None \<or> (\<exists>n. nts = Some n \<and> trim n = [])) \<longrightarrow> notes task = None) \<and>
          (\<forall>n. nts = Some n \<and> trim n \<noteq> [] \<longrightarrow> notes task = Some (trim n)) \<and>
          ((due = None \<or> due = Some []) \<longrightarrow> dueDate task = None) \<and>
          (\<forall>d. due = Some d \<and> d \<noteq> [] \<longrightarrow> dueDate task = Some d)) \<and>
      (\<forall>q'. q' \<noteq> q \<longrightarrow> addTask q ttl nts due e b q' = b q'))"
  by (auto simp: addTask_def Let_def)

theorem addTask_spec_witness:
  "trim (js ''   '') = [] \<and> addTask Do (js ''   '') None None env1 board2 = board2 \<and>
   addTask Do [] None None env1 board2 = board2 \<and>
   trim (js '' Buy milk  '') \<noteq> [] \<and>
   addTask Do (js '' Buy milk  '') (Some (js '' '')) None env1 board2 Do =
     \<lparr>task_id = js ''8a3f-1234'', title = js ''Buy milk'', notes = None, done = False,
      createdAt = 4661, dueDate = None\<rparr> # board2 Do \<and>
   addTask Do (js '' Buy milk  '') (Some (js '' '')) None env1 board2 Delegate =
     board2 Delegate"
  using addTask_spec [of "js ''   ''" Do None None env1 board2]
    addTask_spec [of "[]" Do None None env1 board2]
    addTask_spec [of "js '' Buy milk  ''" Do "Some (js '' '')" None env1 board2]
  by (simp add: addTask_def trim_def js_def is_ws_def uid_def env1_def toString16.simps
      hexdigit_def)

section \<open>Ids along a run\<close>

lemma uid_env1: "uid env1 = js ''8a3f-1234''"
  by (simp add: uid_def env1_def js_def toString16.simps hexdigit_def)

lemma uid_env2: "uid env2 = js ''c41-1236''"
  by (simp add: uid_def env2_def js_def toString16.simps hexdigit_def)

lemma in_ids_iff: "(x \<in> set (ids b)) = (\<exists>q. \<exists>u \<in> set (b q). task_id u = x)"
proof
  assume "x \<in> set (ids b)"
  then show "\<exists>q. \<exists>u \<in> set (b q). task_id u = x"
    unfolding ids_def all_tasks_def by auto
next
  assume "\<exists>q. \<exists>u \<in> set (b q). task_id u = x"
  then obtain q u where "u \<in> set (b q)" "task_id u = x" by blast
  then show "x \<in> set (ids b)"
    unfolding ids_def all_tasks_def by (cases q) auto
qed

lemma distinct_ids_cons:
  assumes "distinct (ids b)" and "task_id t \<notin> set (ids b)"
  shows "distinct (ids (b(q := t # b q)))"
  using assms by (cases q) (auto simp: ids_def all_tasks_def)

lemma distinct_ids_filter:
  assumes "distinct (ids b)"
  shows "distinct (ids (b(q := filter P (b q))))"
  using assms by (cases q) (auto simp: ids_def all_tasks_def distinct_map_filter)

lemma not_in_ids_filter:
  assumes "x \<notin> set (ids (b(q := [])))"
  shows "x \<notin> set (ids (b(q := filter (\<lambda>u. task_id u \<noteq> x) (b q))))"
  using assms by (cases q) (auto simp: ids_def all_tasks_def)

lemma distinct_ids_elsewhere:
  assumes "distinct (ids b)" and "u \<in> set (b q)"
  shows "task_id u \<notin> set (ids (b(q := [])))"
  using assms by (cases q) (auto simp: ids_def all_tasks_def)


lemma map_id_merge:
  "p_id p = None \<Longrightarrow> map task_id (map (\<lambda>u. if task_id u = x then merge u p else u) xs) = map task_id xs"
  by (induction xs) (auto simp: merge_def)

lemma ids_updateTask: "p_id p = None \<Longrightarrow> ids (updateTask q x p b) = ids b"
  by (cases q) (simp_all add: ids_def all_tasks_def updateTask_def map_id_merge del: map_map)

lemma ids_saveEdit: "ids (saveEdit q t dt dn dd b) = ids b"
  by (simp add: saveEdit_def Let_def ids_updateTask)

lemma distinct_ids_moveTask:
  assumes "distinct (ids b)"
  shows "distinct (ids (moveTask f t x b))"
proof (cases "f = t")
  case True
  with assms show ?thesis by (simp add: moveTask_def)
next
  case False
  show ?thesis
  proof (cases "find (\<lambda>u. task_id u = x) (b f)")
    case None
    with assms show ?thesis by (simp add: moveTask_def)
  next
    case (Some task)
    from find_Some_mem [OF Some] have m: "task \<in> set (b f)" "task_id task = x" by auto
    let ?b1 = "b(f := filter (\<lambda>u. task_id u \<noteq> x) (b f))"
    have d1: "distinct (ids ?b1)" using assms by (rule distinct_ids_filter)
    from assms m(1) have "task_id task \<notin> set (ids (b(f := [])))"
      by (rule distinct_ids_elsewhere)
    with m(2) have "x \<notin> set (ids (b(f := [])))" by simp
    then have "x \<notin> set (ids ?b1)" by (rule not_in_ids_filter)
    with m(2) have "task_id task \<notin> set (ids ?b1)" by simp
    with d1 have "distinct (ids (?b1(t := task # ?b1 t)))"
      by (rule distinct_ids_cons)
    moreover have "moveTask f t x b = ?b1(t := task # ?b1 t)"
      using False Some by (simp add: moveTask_def)
    ultimately show ?thesis by simp
  qed
qed

lemma distinct_ids_apply_op:
  assumes "distinct (ids b)" and "op_fresh op b"
  shows "distinct (ids (apply_op op b))"
proof (cases op)
  case (AddTask q ttl nts due e)
  show ?thesis
  proof (cases "trim ttl = []")
    case True
    with AddTask assms show ?thesis by (simp add: addTask_def)
  next
    case False
    with AddTask assms(2) have "uid e \<notin> set (ids b)" by simp
    with assms(1) False AddTask show ?thesis
      by (simp add: addTask_def Let_def distinct_ids_cons)
  qed
next
  case (UpdateTask q x p)
  with assms show ?thesis by (simp add: ids_updateTask)
next
  case (SaveEdit q t dt dn dd)
  with assms show ?thesis by (simp add: ids_saveEdit)
next
  case (DeleteTask q x)
  with assms show ?thesis by (simp add: deleteTask_def distinct_ids_filter)
next
  case (ClearCompleted q)
  with assms show ?thesis by (simp add: clearCompleted_def distinct_ids_filter)
next
  case (MoveTask f t x)
  with assms show ?thesis by (simp add: distinct_ids_moveTask)
next
  case ResetAll
  then show ?thesis by (simp add: confirmReset_def emptyBoard_def ids_def all_tasks_def)
qed

lemma distinct_ids_run:
  "distinct (ids b) \<Longrightarrow> fresh ops b \<Longrightarrow> distinct (ids (run ops b))"
proof (induction ops arbitrary: b)
  case Nil
  then show ?case by simp
next
  case (Cons op ops)
  from Cons.prems have "distinct (ids (apply_op op b))"
    by (simp add: distinct_ids_apply_op)
  with Cons show ?case by simp
qed

lemma distinct_ids_quadrants:
  assumes "distinct (ids b)"
  shows "distinct (map task_id (b q)) \<and>
         (\<forall>q'. q' \<noteq> q \<longrightarrow> set (map task_id (b q)) \<inter> set (map task_id (b q')) = {})"
proof
  show "distinct (map task_id (b q))"
    using assms by (cases q) (simp_all add: ids_def all_tasks_def)
  show "\<forall>q'. q' \<noteq> q \<longrightarrow> set (map task_id (b q)) \<inter> set (map task_id (b q')) = {}"
  proof (intro allI impI)
    fix q' assume "q' \<noteq> q"
    with assms show "set (map task_id (b q)) \<inter> set (map task_id (b q')) = {}"
      by (cases q; cases q') (simp_all add: ids_def all_tasks_def Int_commute Int_Un_distrib Int_Un_distrib2)
  qed
qed

lemma lt16_cases:
  "d < 16 \<Longrightarrow> d = 0 \<or> d = 1 \<or> d = 2 \<or> d = 3 \<or> d = 4 \<or> d = 5 \<or> d = 6 \<or> d = 7 \<or>
     d = 8 \<or> d = 9 \<or> d = 10 \<or> d = 11 \<or> d = 12 \<or> d = 13 \<or> d = 14 \<or> d = (15::nat)"
  by arith

lemma hexdigit_val_hexdigit: "d < 16 \<Longrightarrow> hexdigit_val (hexdigit d) = d"
  by (drule lt16_cases) (auto simp: hexdigit_val_def hexdigit_def)

lemma hexdigit_not_dash: "d < 16 \<Longrightarrow> hexdigit d \<noteq> 0x2D"
  by (drule lt16_cases) (auto simp: hexdigit_def)

lemma hexval_snoc: "hexval (s @ [c]) = 16 * hexval s + hexdigit_val c"
  by (simp add: hexval_def)

lemma hexval_toString16: "hexval (toString16 n) = n"
proof (induction n rule: toString16.induct)
  case (1 n)
  show ?case
  proof (cases "n < 16")
    case True
    then show ?thesis
      by (simp add: toString16.simps [of n] hexval_def hexdigit_val_hexdigit)
  next
    case False
    with 1 have "hexval (toString16 (n div 16)) = n div 16" by simp
    with False show ?thesis
      by (simp add: toString16.simps [of n] hexval_snoc hexdigit_val_hexdigit)
  qed
qed

lemma toString16_inj: "toString16 m = toString16 n \<Longrightarrow> m = n"
  by (metis hexval_toString16)

lemma toString16_no_dash: "0x2D \<notin> set (toString16 n)"
proof (induction n rule: toString16.induct)
  case (1 n)
  show ?case
  proof (cases "n < 16")
    case True
    then show ?thesis
      using hexdigit_not_dash [of n] by (auto simp: toString16.simps [of n])
  next
    case False
    with 1 have "0x2D \<notin> set (toString16 (n div 16))" by simp
    moreover have "hexdigit (n mod 16) \<noteq> 0x2D" by (rule hexdigit_not_dash) simp
    ultimately show ?thesis using False
      by (auto simp: toString16.simps [of n])
  qed
qed

lemma split_at_last:
  "a @ c # h = a' @ c # h' \<Longrightarrow> c \<notin> set h \<Longrightarrow> c \<notin> set h' \<Longrightarrow> a = a' \<and> h = h'"
proof (induction a arbitrary: a')
  case Nil
  then show ?case by (cases a') auto
next
  case (Cons x a0)
  show ?case
  proof (cases a')
    case Nil
    with Cons.prems show ?thesis by auto
  next
    case (Cons y ys)
    with Cons.prems have "a0 @ c # h = ys @ c # h'" and "x = y" by simp_all
    with Cons.IH [of ys] Cons.prems Cons show ?thesis by simp
  qed
qed

lemma uid_key_id: "uid e = key_id (env_key e)"
  by (simp add: uid_def key_id_def env_key_def)

lemma js_dash: "js ''-'' = [0x2D]"
  by (simp add: js_def)

lemma key_id_inj: "key_id k = key_id k' \<Longrightarrow> k = k'"
proof -
  assume "key_id k = key_id k'"
  then have "fst k @ 0x2D # toString16 (snd k) = fst k' @ 0x2D # toString16 (snd k')"
    by (simp add: key_id_def js_dash)
  then have "fst k = fst k' \<and> toString16 (snd k) = toString16 (snd k')"
    by (rule split_at_last) (rule toString16_no_dash)+
  then show "k = k'" by (auto simp: prod_eq_iff dest: toString16_inj)
qed

lemma set_ids_filter: "set (ids (b(q := filter P (b q)))) \<subseteq> set (ids b)"
  by (cases q) (auto simp: ids_def all_tasks_def)

lemma set_ids_moveTask: "set (ids (moveTask f t x b)) \<subseteq> set (ids b)"
proof (cases "f = t")
  case True
  then show ?thesis by (simp add: moveTask_def)
next
  case False
  show ?thesis
  proof (cases "find (\<lambda>u. task_id u = x) (b f)")
    case None
    then show ?thesis by (simp add: moveTask_def)
  next
    case (Some task)
    from find_Some_mem [OF Some] have "task \<in> set (b f)" by simp
    then have m: "task_id task \<in> set (ids b)" by (auto simp: in_ids_iff)
    let ?b1 = "b(f := filter (\<lambda>u. task_id u \<noteq> x) (b f))"
    have s1: "set (ids ?b1) \<subseteq> set (ids b)" by (rule set_ids_filter)
    have "set (ids (?b1(t := task # ?b1 t))) \<subseteq> insert (task_id task) (set (ids ?b1))"
      by (cases t) (auto simp: ids_def all_tasks_def)
    with s1 m have "set (ids (?b1(t := task # ?b1 t))) \<subseteq> set (ids b)" by blast
    moreover have "moveTask f t x b = ?b1(t := task # ?b1 t)"
      using False Some by (simp add: moveTask_def)
    ultimately show ?thesis by simp
  qed
qed

lemma set_ids_cons: "set (ids (b(q := t # b q))) = insert (task_id t) (set (ids b))"
  by (cases q) (auto simp: ids_def all_tasks_def)

lemma ids_apply_op_subset:
  assumes "no_id_patch op"
  shows "set (ids (apply_op op b)) \<subseteq>
     set (ids b) \<union> key_id ` set (add_keys [op])"
proof (cases op)
  case (AddTask q ttl nts due e)
  then show ?thesis
    by (auto simp: addTask_def Let_def set_ids_cons uid_key_id)
next
  case (UpdateTask q x p)
  with assms show ?thesis by (simp add: ids_updateTask)
next
  case (SaveEdit q t dt dn dd)
  then show ?thesis by (simp add: ids_saveEdit)
next
  case (DeleteTask q x)
  then show ?thesis using set_ids_filter by (simp add: deleteTask_def)
next
  case (ClearCompleted q)
  then show ?thesis using set_ids_filter by (simp add: clearCompleted_def)
next
  case (MoveTask f t x)
  then show ?thesis using set_ids_moveTask by simp
next
  case ResetAll
  then show ?thesis by (simp add: confirmReset_def emptyBoard_def ids_def all_tasks_def)
qed

lemma add_keys_Cons: "add_keys (op # ops) = add_keys [op] @ add_keys ops"
  by (cases op) simp_all

lemma op_fresh_from_keys:
  assumes "no_id_patch op" and "set (ids b) \<subseteq> key_id ` K" and "set (add_keys [op]) \<inter> K = {}"
  shows "op_fresh op b"
proof (cases op)
  case (AddTask q ttl nts due e)
  show ?thesis
  proof (cases "trim ttl = []")
    case True
    with AddTask show ?thesis by simp
  next
    case False
    with AddTask assms(3) have n: "env_key e \<notin> K" by simp
    have "uid e \<notin> set (ids b)"
    proof
      assume "uid e \<in> set (ids b)"
      with assms(2) obtain k where "k \<in> K" "key_id k = key_id (env_key e)"
        by (auto simp: uid_key_id)
      with n show False by (auto dest: key_id_inj)
    qed
    with AddTask show ?thesis by simp
  qed
next
  case (UpdateTask q x p)
  with assms(1) show ?thesis by simp
qed simp_all

lemma fresh_from_keys:
  "distinct (ids b) \<Longrightarrow> set (ids b) \<subseteq> key_id ` K \<Longrightarrow> distinct (add_keys ops) \<Longrightarrow>
   set (add_keys ops) \<inter> K = {} \<Longrightarrow> list_all no_id_patch ops \<Longrightarrow> fresh ops b"
proof (induction ops arbitrary: b K)
  case Nil
  then show ?case by simp
next
  case (Cons op ops)
  from Cons.prems(5) have np: "no_id_patch op" and nps: "list_all no_id_patch ops" by simp_all
  have ak: "add_keys (op # ops) = add_keys [op] @ add_keys ops" by (rule add_keys_Cons)
  from Cons.prems(4) ak have d1: "set (add_keys [op]) \<inter> K = {}" by auto
  from np Cons.prems(2) d1 have f: "op_fresh op b" by (rule op_fresh_from_keys)
  with Cons.prems(1) have d: "distinct (ids (apply_op op b))" by (rule distinct_ids_apply_op)
  let ?K = "K \<union> set (add_keys [op])"
  from ids_apply_op_subset [OF np, of b] Cons.prems(2)
  have s: "set (ids (apply_op op b)) \<subseteq> key_id ` ?K" by auto
  from Cons.prems(3) ak have dk: "distinct (add_keys ops)"
    and dj: "set (add_keys [op]) \<inter> set (add_keys ops) = {}" by auto
  from Cons.prems(4) ak dj have "set (add_keys ops) \<inter> ?K = {}" by auto
  with Cons.IH [OF d s dk _ nps] have "fresh ops (apply_op op b)" by simp
  with f show ?case by simp
qed

text \<open>
  C4, as the code has it. \<open>uid\<close> gives two calls the same id exactly when they get
  the same random text and the same clock value. Along every run from the empty board
  in which the calls of \<open>addTask\<close> that add a task get pairwise different pairs of
  random text and clock value, and in which no patch of \<open>updateTask\<close> names the
  field \<open>id\<close>, the ids of the whole board are pairwise distinct: each id occurs at
  most once in its quadrant and in no second quadrant.
\<close>

theorem ids_distinct_run:
  "(uid e = uid e') = (env_key e = env_key e') \<and>
   (distinct (add_keys ops) \<and> list_all no_id_patch ops \<longrightarrow>
      distinct (ids (run ops emptyBoard)) \<and>
      (\<forall>q. distinct (map task_id (run ops emptyBoard q))) \<and>
      (\<forall>q q'. q' \<noteq> q \<longrightarrow>
         set (map task_id (run ops emptyBoard q)) \<inter>
         set (map task_id (run ops emptyBoard q')) = {}))"
proof -
  have u: "(uid e = uid e') = (env_key e = env_key e')"
    by (auto simp: uid_key_id dest: key_id_inj)
  have r: "distinct (ids (run ops emptyBoard)) \<and>
      (\<forall>q. distinct (map task_id (run ops emptyBoard q))) \<and>
      (\<forall>q q'. q' \<noteq> q \<longrightarrow>
         set (map task_id (run ops emptyBoard q)) \<inter>
         set (map task_id (run ops emptyBoard q')) = {})"
    if k: "distinct (add_keys ops)" and n: "list_all no_id_patch ops"
  proof -
    have e: "distinct (ids emptyBoard)" "set (ids emptyBoard) \<subseteq> key_id ` {}"
      by (simp_all add: ids_def all_tasks_def emptyBoard_def)
    from e k _ n have "fresh ops emptyBoard" by (rule fresh_from_keys) simp
    with e(1) have d: "distinct (ids (run ops emptyBoard))" by (rule distinct_ids_run)
    with distinct_ids_quadrants [OF d] show ?thesis by blast
  qed
  from u r show ?thesis by blast
qed

theorem ids_distinct_run_witness:
  "add_keys ops_ok = [(js ''8a3f'', 4660), (js ''c41'', 4662)] \<and>
   distinct (add_keys ops_ok) \<and> list_all no_id_patch ops_ok \<and>
   ids (run ops_ok emptyBoard) = [js ''c41-1236''] \<and>
   distinct (ids (run ops_ok emptyBoard)) \<and>
   uid env1 \<noteq> uid env2"
proof -
  have a: "add_keys ops_ok = [(js ''8a3f'', 4660), (js ''c41'', 4662)]"
    by (simp add: ops_ok_def env_key_def env1_def env2_def trim_def is_ws_def js_def)
  have k: "distinct (add_keys ops_ok)" unfolding a by simp
  have n: "list_all no_id_patch ops_ok" by (simp add: ops_ok_def no_patch_def)
  have i: "ids (run ops_ok emptyBoard) = [js ''c41-1236'']"
    by (simp add: ops_ok_def addTask_def updateTask_def moveTask_def clearCompleted_def
      emptyBoard_def ids_def all_tasks_def uid_env1 uid_env2 trim_def is_ws_def
      js_def no_patch_def merge_def)
  have e: "env_key env1 \<noteq> env_key env2"
    by (simp add: env_key_def env1_def env2_def)
  from ids_distinct_run [of env1 env2 ops_ok] a k n i e show ?thesis by simp
qed

text \<open>
  C4 as stated fails. \<open>uid\<close> is a function of the random number and the clock, so
  two calls of \<open>addTask\<close> that get the same values from both store the same id
  twice; and \<open>updateTask\<close> with a patch that names \<open>id\<close> gives one task the id of
  another one.
\<close>

theorem ids_not_always_distinct:
  "\<not> distinct (ids (run [AddTask Do (js ''Call dentist'') None None env1,
                         AddTask Schedule (js ''Pay rent'') None None env1] emptyBoard)) \<and>
   \<not> distinct (ids (run [AddTask Do (js ''Call dentist'') None None env1,
                         AddTask Do (js ''Pay rent'') None None env2,
                         UpdateTask Do (uid env1) (no_patch\<lparr>p_id := Some (uid env2)\<rparr>)]
                      emptyBoard))"
  by (simp add: addTask_def updateTask_def emptyBoard_def ids_def all_tasks_def
      uid_env1 uid_env2 trim_def is_ws_def js_def no_patch_def merge_def)

section \<open>Titles along a run\<close>

lemma title_ok_trim: "trim s \<noteq> [] \<Longrightarrow> title_ok (trim s)"
  by (simp add: title_ok_def trim_idem)

lemma titles_ok_cons:
  "titles_ok b \<Longrightarrow> title_ok (title t) \<Longrightarrow> titles_ok (b(q := t # b q))"
  by (simp add: titles_ok_def)

lemma titles_ok_filter: "titles_ok b \<Longrightarrow> titles_ok (b(q := filter P (b q)))"
  by (auto simp: titles_ok_def)

lemma titles_ok_updateTask:
  assumes "titles_ok b" and "case p_title p of None \<Rightarrow> True | Some v \<Rightarrow> title_ok v"
  shows "titles_ok (updateTask q x p b)"
proof -
  have "\<And>u. title_ok (title u) \<Longrightarrow> title_ok (title (merge u p))"
    using assms(2) by (cases "p_title p") (simp_all add: merge_def)
  with assms(1) show ?thesis 
    by (auto simp: titles_ok_def updateTask_def)
qed

lemma titles_ok_saveEdit: "titles_ok b \<Longrightarrow> titles_ok (saveEdit q t dt dn dd b)"
  by (simp add: saveEdit_def Let_def titles_ok_updateTask title_ok_trim)

lemma titles_ok_moveTask:
  assumes "titles_ok b"
  shows "titles_ok (moveTask f t x b)"
proof (cases "f = t")
  case True
  with assms show ?thesis by (simp add: moveTask_def)
next
  case False
  show ?thesis
  proof (cases "find (\<lambda>u. task_id u = x) (b f)")
    case None
    with assms show ?thesis by (simp add: moveTask_def)
  next
    case (Some task)
    from find_Some_mem [OF Some] have "task \<in> set (b f)" by simp
    with assms have k: "title_ok (title task)" by (simp add: titles_ok_def)
    let ?b1 = "b(f := filter (\<lambda>u. task_id u \<noteq> x) (b f))"
    from assms have "titles_ok ?b1" by (rule titles_ok_filter)
    then have "titles_ok (?b1(t := task # ?b1 t))" using k by (rule titles_ok_cons)
    moreover have "moveTask f t x b = ?b1(t := task # ?b1 t)"
      using False Some by (simp add: moveTask_def)
    ultimately show ?thesis by simp
  qed
qed

lemma titles_ok_apply_op:
  assumes "titles_ok b" and "op_guarded op"
  shows "titles_ok (apply_op op b)"
proof (cases op)
  case (AddTask q ttl nts due e)
  show ?thesis
  proof (cases "trim ttl = []")
    case True
    with AddTask assms show ?thesis by (simp add: addTask_def)
  next
    case False
    then have "title_ok (trim ttl)" by (rule title_ok_trim)
    with assms(1) False AddTask show ?thesis
      by (simp add: addTask_def Let_def titles_ok_cons)
  qed
next
  case (UpdateTask q x p)
  with assms show ?thesis by (simp add: titles_ok_updateTask)
next
  case (SaveEdit q t dt dn dd)
  with assms show ?thesis by (simp add: titles_ok_saveEdit)
next
  case (DeleteTask q x)
  with assms show ?thesis by (simp add: deleteTask_def titles_ok_filter)
next
  case (ClearCompleted q)
  with assms show ?thesis by (simp add: clearCompleted_def titles_ok_filter)
next
  case (MoveTask f t x)
  with assms show ?thesis by (simp add: titles_ok_moveTask)
next
  case ResetAll
  then show ?thesis by (simp add: confirmReset_def emptyBoard_def titles_ok_def)
qed

lemma titles_ok_run:
  "titles_ok b \<Longrightarrow> list_all op_guarded ops \<Longrightarrow> titles_ok (run ops b)"
proof (induction ops arbitrary: b)
  case Nil
  then show ?case by simp
next
  case (Cons op ops)
  from Cons.prems have "titles_ok (apply_op op b)"
    by (simp add: titles_ok_apply_op)
  with Cons show ?case by simp
qed

text \<open>
  C5, as the code has it. The check of the title is in \<open>saveEdit\<close>, not in
  \<open>updateTask\<close>. Along every run from the empty board whose direct calls of
  \<open>updateTask\<close> send no title or a trimmed, non-empty one, every stored title is
  its own trimmed form and is not empty. \<open>saveEdit\<close> with a draft title that trims
  to the empty string returns the board unchanged; with any other draft it calls
  \<open>updateTask\<close> with the trimmed (hence trimmed and non-empty) title.
\<close>

theorem titles_trimmed_guarded_run:
  "(list_all op_guarded ops \<longrightarrow>
      (\<forall>q. \<forall>u \<in> set (run ops emptyBoard q). title u \<noteq> [] \<and> trim (title u) = title u)) \<and>
   (trim dt = [] \<longrightarrow> saveEdit q t dt dn dd b = b) \<and>
   (trim dt \<noteq> [] \<longrightarrow>
      title_ok (trim dt) \<and>
      saveEdit q t dt dn dd b =
        updateTask q (task_id t)
          \<lparr>p_id = None, p_title = Some (trim dt),
           p_notes = Some (if trim dn = [] then None else Some (trim dn)),
           p_done = None, p_createdAt = None,
           p_dueDate = Some (if dd = [] then None else Some dd)\<rparr> b)"
proof -
  have 1: "\<forall>q. \<forall>u \<in> set (run ops emptyBoard q). title u \<noteq> [] \<and> trim (title u) = title u"
    if g: "list_all op_guarded ops"
  proof -
    have "titles_ok emptyBoard" by (simp add: titles_ok_def emptyBoard_def)
    then have "titles_ok (run ops emptyBoard)" using g by (rule titles_ok_run)
    then show ?thesis by (simp add: titles_ok_def title_ok_def)
  qed
  have 2: "saveEdit q t dt dn dd b = b" if "trim dt = []"
    using that by (simp add: saveEdit_def)
  have 3: "title_ok (trim dt) \<and>
      saveEdit q t dt dn dd b =
        updateTask q (task_id t)
          \<lparr>p_id = None, p_title = Some (trim dt),
           p_notes = Some (if trim dn = [] then None else Some (trim dn)),
           p_done = None, p_createdAt = None,
           p_dueDate = Some (if dd = [] then None else Some dd)\<rparr> b"
    if "trim dt \<noteq> []"
    using that by (simp add: saveEdit_def Let_def title_ok_trim)
  from 1 2 3 show ?thesis by blast
qed

theorem titles_trimmed_guarded_run_witness:
  "list_all op_guarded ops_ok \<and>
   map title (run ops_ok emptyBoard Do) = [js ''Pay rent''] \<and>
   trim (js ''Pay rent'') = js ''Pay rent'' \<and>
   trim (js ''  '') = [] \<and>
   saveEdit Do task_x (js ''  '') (js ''n'') [] board2 = board2 \<and>
   trim (js '' Call  '') \<noteq> [] \<and>
   map title (saveEdit Do task_x (js '' Call  '') (js ''n'') [] board2 Do) =
     [js ''Pay rent'', js ''Call'']"
  using titles_trimmed_guarded_run [of ops_ok "js ''  ''" Do task_x "js ''n''" "[]" board2]
    titles_trimmed_guarded_run [of ops_ok "js '' Call  ''" Do task_x "js ''n''" "[]" board2]
  by (simp add: ops_ok_def addTask_def updateTask_def moveTask_def clearCompleted_def
      emptyBoard_def uid_env1 uid_env2 trim_def is_ws_def title_ok_def
      js_def no_patch_def merge_def board2_def task_x_def mk_task_def)

text \<open>
  C5 as stated fails: \<open>updateTask\<close> on a task that is on the board, with a title of
  two spaces, changes the board and stores that title.
\<close>

theorem updateTask_stores_blank_title:
  "uid env1 \<in> set (ids (run [AddTask Do (js ''Call dentist'') None None env1] emptyBoard)) \<and>
   trim (js ''  '') = [] \<and>
   updateTask Do (uid env1) (no_patch\<lparr>p_title := Some (js ''  '')\<rparr>)
      (run [AddTask Do (js ''Call dentist'') None None env1] emptyBoard)
     \<noteq> run [AddTask Do (js ''Call dentist'') None None env1] emptyBoard \<and>
   map title (run [AddTask Do (js ''Call dentist'') None None env1,
                   UpdateTask Do (uid env1) (no_patch\<lparr>p_title := Some (js ''  '')\<rparr>)]
                emptyBoard Do) = [js ''  '']"
  by (simp add: addTask_def updateTask_def emptyBoard_def ids_def all_tasks_def
      uid_env1 trim_def is_ws_def js_def no_patch_def merge_def fun_eq_iff)

section \<open>loadState and saveState\<close>

lemma js_Nil_iff [simp]: "(js s = []) = (s = [])" "([] = js s) = (s = [])"
  by (auto simp: js_def)

lemmas sample_defs = parse_sample_def stringify_sample_def text_empty_board_def text_junk_def
  text_falsy_def text_three_def junk_def falsy_def three_def holding_def storage0_def

lemmas load_defs = loadState_def loadState_try_def getItem_def shape_check_fails_def key_name_def

lemma all_quadrants: "(\<forall>q. P q) = (P Do \<and> P Schedule \<and> P Delegate \<and> P Eliminate)"
proof
  assume r: "P Do \<and> P Schedule \<and> P Delegate \<and> P Eliminate"
  show "\<forall>q. P q"
  proof
    fix q show "P q" using r by (cases q) auto
  qed
qed simp

lemma key_name_inj [simp]: "(key_name q = key_name q') = (q = q')"
  by (cases q; cases q') (simp_all add: key_name_def)

lemma shape_check_missing:
  assumes "\<not> has_key parsed q"
  shows "shape_check_fails parsed = Inr True \<or> shape_check_fails parsed = Inl TypeError"
proof (cases parsed)
  case (JObj kvs)
  with assms have "map_of kvs (key_name q) = None"
    by (simp add: map_of_eq_None_iff)
  with JObj show ?thesis
    by (cases q) (simp_all add: shape_check_fails_def)
qed (simp_all add: shape_check_fails_def)

lemma shape_check_falsy:
  assumes "read_quadrant parsed q = Inr v" and "\<not> truthy v"
  shows "shape_check_fails parsed = Inr True"
proof -
  from assms(1) have "\<forall>q'. \<exists>w. read_quadrant parsed q' = Inr w"
    by (cases parsed) simp_all
  then obtain d s g l where r: "read_quadrant parsed Do = Inr d"
    "read_quadrant parsed Schedule = Inr s" "read_quadrant parsed Delegate = Inr g"
    "read_quadrant parsed Eliminate = Inr l" by metis
  with assms show ?thesis
    by (cases q) (simp_all add: shape_check_fails_def)
qed

lemma shape_check_truthy:
  assumes "\<forall>q. \<exists>v. read_quadrant parsed q = Inr v \<and> truthy v"
  shows "shape_check_fails parsed = Inr False"
proof -
  from assms obtain d s g l where r: "read_quadrant parsed Do = Inr d" "truthy d"
    "read_quadrant parsed Schedule = Inr s" "truthy s"
    "read_quadrant parsed Delegate = Inr g" "truthy g"
    "read_quadrant parsed Eliminate = Inr l" "truthy l" by metis
  then show ?thesis by (simp add: shape_check_fails_def)
qed

lemma is_task_task_json: "is_task (task_json t)"
  by (cases "notes t"; cases "dueDate t") (simp_all add: task_json_def)

lemma is_board_board_json: "is_board (board_json b)"
  by (simp add: is_board_def board_json_def key_name_def list_all_iff is_task_task_json)





text \<open>
  C7. \<open>loadState\<close> returns \<open>null\<close> (\<open>None\<close>) when the access to the storage
  throws, when there is no item under the key or the item is the empty string, when
  \<open>JSON.parse\<close> throws on the item, and when the parsed value lacks one of the four
  quadrant properties (a value that is no object lacks them all; on \<open>null\<close> the
  property read throws). Whatever is thrown inside the \<open>try\<close> block, the result is
  \<open>null\<close>: \<open>loadState\<close> itself raises nothing.
\<close>

theorem loadState_absent:
  "(blocked ls \<longrightarrow> loadState JSON_parse ls = None) \<and>
   (items ls STORAGE_KEY = None \<longrightarrow> loadState JSON_parse ls = None) \<and>
   (items ls STORAGE_KEY = Some [] \<longrightarrow> loadState JSON_parse ls = None) \<and>
   (\<forall>raw e. items ls STORAGE_KEY = Some raw \<and> JSON_parse raw = Inl e
        \<longrightarrow> loadState JSON_parse ls = None) \<and>
   (\<forall>raw parsed q. items ls STORAGE_KEY = Some raw \<and> JSON_parse raw = Inr parsed \<and>
        \<not> has_key parsed q \<longrightarrow> loadState JSON_parse ls = None) \<and>
   (\<forall>e. loadState_try JSON_parse ls = Inl e \<longrightarrow> loadState JSON_parse ls = None)"
proof -
  have 1: "loadState JSON_parse ls = None" if "blocked ls"
    using that by (simp add: loadState_def loadState_try_def getItem_def)
  have 2: "loadState JSON_parse ls = None" if "items ls STORAGE_KEY = None"
    using that by (simp add: loadState_def loadState_try_def getItem_def)
  have 3: "loadState JSON_parse ls = None" if "items ls STORAGE_KEY = Some []"
    using that by (simp add: loadState_def loadState_try_def getItem_def)
  have 4: "loadState JSON_parse ls = None"
    if "items ls STORAGE_KEY = Some raw" "JSON_parse raw = Inl e" for raw e
    using that by (simp add: loadState_def loadState_try_def getItem_def)
  have 5: "loadState JSON_parse ls = None"
    if "items ls STORAGE_KEY = Some raw" "JSON_parse raw = Inr parsed" "\<not> has_key parsed q"
    for raw parsed q
    using that(1,2) shape_check_missing [OF that(3)]
    by (auto simp: loadState_def loadState_try_def getItem_def)
  have 6: "loadState JSON_parse ls = None" if "loadState_try JSON_parse ls = Inl e" for e
    using that by (simp add: loadState_def)
  from 1 2 3 4 5 6 show ?thesis by blast
qed

theorem loadState_absent_witness:
  "loadState parse_sample (storage0\<lparr>blocked := True\<rparr>) = None \<and>
   loadState parse_sample storage0 = None \<and>
   loadState parse_sample (holding []) = None \<and>
   parse_sample (js ''{do:'') = Inl SyntaxError \<and>
   loadState parse_sample (holding (js ''{do:'')) = None \<and>
   parse_sample text_three = Inr three \<and> \<not> has_key three Eliminate \<and>
   loadState parse_sample (holding text_three) = None \<and>
   parse_sample (js ''[]'') = Inr (JArr []) \<and> \<not> has_key (JArr []) Do \<and>
   loadState parse_sample (holding (js ''[]'')) = None \<and>
   loadState_try parse_sample (holding (js ''null'')) = Inl TypeError \<and>
   loadState parse_sample (holding (js ''null'')) = None"
  using loadState_absent [of "storage0\<lparr>blocked := True\<rparr>" parse_sample]
    loadState_absent [of storage0 parse_sample]
    loadState_absent [of "holding []" parse_sample]
    loadState_absent [of "holding (js ''{do:'')" parse_sample]
    loadState_absent [of "holding text_three" parse_sample]
    loadState_absent [of "holding (js ''[]'')" parse_sample]
    loadState_absent [of "holding (js ''null'')" parse_sample]
  by (simp add: sample_defs load_defs)

text \<open>
  C10. The check of \<open>loadState\<close> is the truthiness of the four properties and
  nothing more. \<open>JSON.parse\<close> throws on the empty text; given that, every stored
  text that parses to a value with four truthy quadrant properties is returned as it
  was parsed. A quadrant property that is present but is
  \<open>null\<close>, \<open>false\<close>, \<open>0\<close> or the empty string makes \<open>loadState\<close> return
  \<open>null\<close>. The text \<open>text_junk\<close>, whose four properties are a number, a string,
  a boolean and an object, is accepted although its value is no board.
\<close>

theorem loadState_shallow:
  "(\<forall>raw parsed. JSON_parse [] = Inl SyntaxError \<and>
        \<not> blocked ls \<and> items ls STORAGE_KEY = Some raw \<and>
        JSON_parse raw = Inr parsed \<and>
        (\<forall>q. \<exists>v. read_quadrant parsed q = Inr v \<and> truthy v)
        \<longrightarrow> loadState JSON_parse ls = Some parsed) \<and>
   (\<forall>raw parsed q v. items ls STORAGE_KEY = Some raw \<and> JSON_parse raw = Inr parsed \<and>
        has_key parsed q \<and> read_quadrant parsed q = Inr (Some v) \<and>
        v \<in> {JNull, JBool False, JNum 0, JStr []}
        \<longrightarrow> loadState JSON_parse ls = None) \<and>
   (JSON_parse text_junk = Inr junk
        \<longrightarrow> loadState JSON_parse (holding text_junk) = Some junk \<and> \<not> is_board junk)"
proof -
  have 1: "loadState JSON_parse ls = Some parsed"
    if "JSON_parse [] = Inl SyntaxError" "\<not> blocked ls" "items ls STORAGE_KEY = Some raw"
      "JSON_parse raw = Inr parsed" "\<forall>q. \<exists>v. read_quadrant parsed q = Inr v \<and> truthy v"
    for raw parsed
  proof -
    from that(1,4) have "raw \<noteq> []" by auto
    with that(2-4) shape_check_truthy [OF that(5)] show ?thesis
      by (simp add: loadState_def loadState_try_def getItem_def)
  qed
  have 2: "loadState JSON_parse ls = None"
    if "items ls STORAGE_KEY = Some raw" "JSON_parse raw = Inr parsed"
      "read_quadrant parsed q = Inr (Some v)" "v \<in> {JNull, JBool False, JNum 0, JStr []}"
    for raw parsed q v
  proof -
    from that(4) have "\<not> truthy (Some v)" by auto
    with that(3) have "shape_check_fails parsed = Inr True" by (rule shape_check_falsy)
    with that(1,2) show ?thesis
      by (simp add: loadState_def loadState_try_def getItem_def)
  qed
  have 3: "loadState JSON_parse (holding text_junk) = Some junk \<and> \<not> is_board junk"
    if "JSON_parse text_junk = Inr junk"
    using that by (simp add: load_defs holding_def text_junk_def junk_def is_board_def)
  from 1 2 3 show ?thesis by blast
qed

theorem loadState_shallow_witness:
  "parse_sample [] = Inl SyntaxError \<and> parse_sample text_junk = Inr junk \<and>
   truthy (Some (JNum 1)) \<and> truthy (Some (JStr (js ''x''))) \<and>
   truthy (Some (JBool True)) \<and> truthy (Some (JObj [])) \<and>
   loadState parse_sample (holding text_junk) = Some junk \<and> \<not> is_board junk \<and>
   parse_sample text_falsy = Inr falsy \<and> has_key falsy Schedule \<and>
   read_quadrant falsy Schedule = Inr (Some (JNum 0)) \<and>
   loadState parse_sample (holding text_falsy) = None"
  using loadState_shallow [where ls = "holding text_junk" and JSON_parse = parse_sample]
    loadState_shallow [where ls = "holding text_falsy" and JSON_parse = parse_sample]
  by (simp add: sample_defs load_defs all_quadrants is_board_def)




section \<open>Hydration before persistence\<close>

lemma no_early_save_Load: "no_early_save xs \<Longrightarrow> no_early_save (xs @ Load # ys)"
  by (induction xs rule: no_early_save.induct) simp_all

lemma no_early_save_after: "no_early_save xs \<Longrightarrow> Load \<in> set xs \<Longrightarrow> no_early_save (xs @ ys)"
  by (induction xs rule: no_early_save.induct) simp_all

lemma no_early_save_Remove: "no_early_save xs \<Longrightarrow> no_early_save (xs @ [Remove])"
  by (induction xs rule: no_early_save.induct) simp_all

lemma no_early_save_nth:
  "no_early_save cs \<Longrightarrow> i < length cs \<Longrightarrow> cs ! i = Save v \<Longrightarrow> \<exists>j < i. cs ! j = Load"
proof (induction cs arbitrary: i rule: no_early_save.induct)
  case 1
  then show ?case by simp
next
  case (2 cs)
  then show ?case by (cases i) auto
next
  case (3 v' cs)
  then show ?case by simp
next
  case (4 cs)
  show ?case
  proof (cases i)
    case 0
    with 4 show ?thesis by simp
  next
    case (Suc k)
    with 4 obtain j where "j < k" "cs ! j = Load" by auto
    then have "Suc j < i \<and> (Remove # cs) ! Suc j = Load" using Suc by simp
    then show ?thesis by blast
  qed
qed

lemma sound_effect2:
  assumes "sound c" and "h \<longrightarrow> Load \<in> set (calls c) \<and> hydrated c"
  shows "sound (effect2 S v h c)"
  using assms by (auto simp: sound_def effect2_def no_early_save_after)

lemma sound_rendered: "sound c \<Longrightarrow> sound (c\<lparr>rendered := r\<rparr>)"
  by (simp add: sound_def)

lemma sound_effect1:
  "effect1 P c c1 \<Longrightarrow> sound c \<Longrightarrow> sound c1 \<and> Load \<in> set (calls c1) \<and> hydrated c1"
  by (induction rule: effect1.induct) (simp_all add: sound_def no_early_save_Load)

lemma sound_handle: "handle op c c1 \<Longrightarrow> sound c \<Longrightarrow> sound c1"
  by (induction rule: handle.induct) (simp_all add: sound_def forget_def no_early_save_Remove)

lemma sound_commit: 
  assumes "sound c"
  shows "sound (commit S c)"
proof -
  from assms have "hydrated c \<longrightarrow> Load \<in> set (calls c) \<and> hydrated c" by (simp add: sound_def)
  with assms have "sound (effect2 S (board c) (hydrated c) c)" by (rule sound_effect2)
  then have "sound ((effect2 S (board c) (hydrated c) c)\<lparr>rendered := Some (board_obj c, hydrated c)\<rparr>)"
    by (rule sound_rendered)
  with assms show ?thesis by (simp add: commit_def)
qed

lemma sound_step: "step P S c c' \<Longrightarrow> sound c \<Longrightarrow> sound c'"
proof (induction rule: step.induct)
  case (mount c c1)
  from sound_effect1 [OF mount(2) mount(3)]
  have "sound (effect2 S (board c) (hydrated c) c1)" by (simp add: sound_effect2)
  then show ?case by (rule sound_rendered)
next
  case (rerender c)
  then show ?case by (simp add: sound_commit)
next
  case (event c op c1)
  then show ?case by (simp add: sound_commit sound_handle)
qed

lemma sound_reach: "reach P S ls c \<Longrightarrow> sound c"
proof (induction rule: reach.induct)
  case reach_init
  show ?case by (simp add: sound_def init_def)
next
  case (reach_step c c')
  then show ?case by (simp add: sound_step)
qed


lemma calls_effect2_Load:
  "count_list (calls (effect2 S v h c)) Load = count_list (calls c) Load \<and>
   (Load \<in> set (calls (effect2 S v h c))) = (Load \<in> set (calls c)) \<and>
   hydrated (effect2 S v h c) = hydrated c \<and>
   board_obj (effect2 S v h c) = board_obj c \<and>
   board (effect2 S v h c) = board c \<and>
   rendered (effect2 S v h c) = rendered c"
  by (simp add: effect2_def)

lemma once_effect1:
  "effect1 P c c1 \<Longrightarrow> rendered c = None \<Longrightarrow> once c \<Longrightarrow>
     count_list (calls c1) Load \<le> 1 \<and> board_obj c \<le> board_obj c1"
  by (induction rule: effect1.induct) (simp_all add: once_def count_list_0_iff)

lemma once_handle:
  "handle op c c1 \<Longrightarrow>
     count_list (calls c1) Load = count_list (calls c) Load \<and>
     (Load \<in> set (calls c1)) = (Load \<in> set (calls c)) \<and>
     rendered c1 = rendered c \<and> hydrated c1 = hydrated c \<and> board_obj c \<le> board_obj c1"
  by (induction rule: handle.induct) (simp_all add: forget_def)

lemma once_commit:
  assumes "once c" and "rendered c \<noteq> None"
  shows "once (commit S c)"
  using assms by (auto simp: once_def commit_def calls_effect2_Load)

lemma once_step: "step P S c c' \<Longrightarrow> once c \<Longrightarrow> once c'"
proof (induction rule: step.induct)
  case (mount c c1)
  from once_effect1 [OF mount(2) mount(1) mount(3)] show ?case
    by (simp add: once_def calls_effect2_Load)
next
  case (rerender c)
  then show ?case by (simp add: once_commit)
next
  case (event c op c1)
  from once_handle [OF event(2)] event(1,3) have "once c1 \<and> rendered c1 \<noteq> None"
    by (auto simp: once_def)
  then show ?case by (simp add: once_commit)
qed

lemma once_reach: "reach P S ls c \<Longrightarrow> once c"
proof (induction rule: reach.induct)
  case reach_init
  show ?case by (simp add: once_def init_def)
next
  case (reach_step c c')
  then show ?case by (simp add: once_step)
qed

lemma apply_op_same: "\<not> new_object op b \<Longrightarrow> apply_op op b = b"
  by (cases op) (auto simp: addTask_def saveEdit_def moveTask_def)

text \<open>The effect of a commit that finds a newer board object in a hydrated component.\<close>

lemma commit_saves:
  assumes "hydrated c1" and "rendered c1 = Some (r, h)" and "r < board_obj c1"
  shows "calls (commit S c1) = calls c1 @ [Save (held_json (board c1))] \<and>
         storage (commit S c1) = save_held S (board c1) (storage c1) \<and>
         rendered (commit S c1) = Some (board_obj c1, True) \<and>
         board (commit S c1) = board c1 \<and> board_obj (commit S c1) = board_obj c1 \<and>
         hydrated (commit S c1)"
  using assms by (simp add: commit_def effect2_def)

lemma commit_keeps_board:
  "board (commit S c) = board c \<and> board_obj (commit S c) = board_obj c"
  by (simp add: commit_def calls_effect2_Load)

lemma handle_change:
  assumes "handle op c c1" and "board c1 \<noteq> board c \<or> board_obj c1 \<noteq> board_obj c"
  shows "board_obj c1 = Suc (board_obj c) \<and> hydrated c1 = hydrated c \<and>
         rendered c1 = rendered c \<and>
         (\<exists>pre ls1. calls c1 = calls c @ pre \<and> set pre \<subseteq> {Remove} \<and> storage c1 = ls1 \<and>
            (ls1 = storage c \<or> removeItem (storage c) STORAGE_KEY = Inr ls1))"
  using assms
proof (induction rule: handle.induct)
  case (on_board c b op)
  have "new_object op b"
  proof (rule ccontr)
    assume n: "\<not> new_object op b"
    then have "apply_op op b = b" by (rule apply_op_same)
    with n on_board show False by simp
  qed
  then show ?case by simp
next
  case (reset c)
  show ?case
    by (cases "removeItem (storage c) STORAGE_KEY") (simp_all add: forget_def)
next
  case (on_other_kept c j op)
  then show ?case by simp
next
  case (on_other_set c j op v)
  then show ?case by simp
qed

lemma step_rendered: "step P S c c' \<Longrightarrow> rendered c' \<noteq> None"
proof (induction rule: step.induct)
  case (mount c c1)
  show ?case by simp
next
  case (rerender c)
  then show ?case by (auto simp: commit_def)
next
  case (event c op c1)
  from once_handle [OF event(2)] event(1) have "rendered c1 \<noteq> None" by simp
  then show ?case by (auto simp: commit_def)
qed

lemma reach_unmounted: "reach P S ls c \<Longrightarrow> rendered c = None \<Longrightarrow> c = init ls"
  by (induction rule: reach.induct) (auto dest: step_rendered)

lemma effect1_total: "\<exists>c1. effect1 P c c1 \<and> hydrated c1 \<and> calls c1 = calls c @ [Load]"
proof (cases "loadState P (storage c)")
  case None
  then have "effect1 P c (c\<lparr>hydrated := True, calls := calls c @ [Load]\<rparr>)"
    by (rule effect1.absent)
  then show ?thesis by force
next
  case (Some j)
  show ?thesis
  proof (cases "\<exists>b. represents b j")
    case True
    then obtain b where "represents b j" ..
    with Some have "effect1 P c (c\<lparr>board := Board b, board_obj := Suc (board_obj c),
        hydrated := True, calls := calls c @ [Load]\<rparr>)"
      by (rule effect1.loaded_board)
    then show ?thesis by force
  next
    case False
    then have "\<forall>b. \<not> represents b j" by simp
    with Some have "effect1 P c (c\<lparr>board := Other j, board_obj := Suc (board_obj c),
        hydrated := True, calls := calls c @ [Load]\<rparr>)"
      by (rule effect1.loaded_other)
    then show ?thesis by force
  qed
qed

lemma mount_possible:
  "\<exists>c'. step P S (init ls) c' \<and> hydrated c' \<and> calls c' = [Load]"
proof -
  from effect1_total [of P "init ls"] obtain c1 where
    e: "effect1 P (init ls) c1" and h: "hydrated c1" and k: "calls c1 = calls (init ls) @ [Load]"
    by blast
  have "rendered (init ls) = None" by (simp add: init_def)
  from step.mount [OF this e, of S]
  have "step P S (init ls)
      ((effect2 S (board (init ls)) (hydrated (init ls)) c1)
         \<lparr>rendered := Some (board_obj (init ls), hydrated (init ls))\<rparr>)" .
  moreover have "effect2 S (board (init ls)) (hydrated (init ls)) c1 = c1"
    by (simp add: effect2_def init_def)
  ultimately have "step P S (init ls) (c1\<lparr>rendered := Some (board_obj (init ls), hydrated (init ls))\<rparr>)"
    by simp
  moreover from h k have "hydrated (c1\<lparr>rendered := Some (board_obj (init ls), hydrated (init ls))\<rparr>) \<and>
      calls (c1\<lparr>rendered := Some (board_obj (init ls), hydrated (init ls))\<rparr>) = [Load]"
    by (simp add: init_def)
  ultimately show ?thesis by blast
qed

lemma step_change_saves:
  assumes st: "step P S c c'" and o: "once c" and h: "hydrated c"
    and ch: "board c' \<noteq> board c \<or> board_obj c' \<noteq> board_obj c"
  shows "(\<exists>pre ls1. calls c' = calls c @ pre @ [Save (held_json (board c'))] \<and>
               set pre \<subseteq> {Remove} \<and>
               (ls1 = storage c \<or> removeItem (storage c) STORAGE_KEY = Inr ls1) \<and>
               storage c' = save_held S (board c') ls1) \<and>
         rendered c' = Some (board_obj c', True)"
  using st o h ch
proof (induction rule: step.induct)
  case (mount c c1)
  then show ?case by (simp add: once_def)
next
  case (rerender c)
  then show ?case by (simp add: commit_keeps_board)
next
  case (event c op c1)
  from event(5) have "board c1 \<noteq> board c \<or> board_obj c1 \<noteq> board_obj c"
    by (simp add: commit_keeps_board)
  from handle_change [OF event(2) this] obtain pre ls1 where
    n: "board_obj c1 = Suc (board_obj c)" and h1: "hydrated c1 = hydrated c"
    and r1: "rendered c1 = rendered c" and k: "calls c1 = calls c @ pre"
    and p: "set pre \<subseteq> {Remove}" and s: "storage c1 = ls1"
    and l: "ls1 = storage c \<or> removeItem (storage c) STORAGE_KEY = Inr ls1"
    by blast
  from event(1) obtain r h where rh: "rendered c = Some (r, h)" by auto
  with event(3) have "r \<le> board_obj c" by (simp add: once_def)
  with n have lt: "r < board_obj c1" by simp
  from h1 event(4) have hy: "hydrated c1" by simp
  from r1 rh have "rendered c1 = Some (r, h)" by simp
  from commit_saves [OF hy this lt, of S] k s p l show ?case by auto
qed

lemma reach_settled0: "reach parse_sample stringify_sample storage0 settled0"
proof -
  have r0: "reach parse_sample stringify_sample storage0 (init storage0)"
    by (rule reach.reach_init)
  have "loadState parse_sample (storage (init storage0)) = None"
    by (simp add: init_def storage0_def loadState_def loadState_try_def getItem_def)
  then have e: "effect1 parse_sample (init storage0)
      ((init storage0)\<lparr>hydrated := True, calls := calls (init storage0) @ [Load]\<rparr>)"
    by (rule effect1.absent)
  have "rendered (init storage0) = None" by (simp add: init_def)
  from step.mount [OF this e, of stringify_sample]
  have "step parse_sample stringify_sample (init storage0) mounted0"
    by (simp add: init_def mounted0_def effect2_def)
  with r0 have r1: "reach parse_sample stringify_sample storage0 mounted0"
    by (rule reach.reach_step)
  have "rendered mounted0 \<noteq> None" by (simp add: mounted0_def)
  then have "step parse_sample stringify_sample mounted0 (commit stringify_sample mounted0)"
    by (rule step.rerender)
  with r1 show ?thesis unfolding settled0_def by (rule reach.reach_step)
qed

lemma settled0_eq:
  "settled0 = \<lparr>board = Board emptyBoard, board_obj = 0, hydrated = True,
               rendered = Some (0, True), storage = holding text_empty_board,
               calls = [Load, Save (board_json emptyBoard)]\<rparr>"
  by (simp add: settled0_def mounted0_def init_def commit_def effect2_def saveState_def
      setItem_def storage0_def holding_def stringify_sample_def)

lemma step_added0: "step parse_sample stringify_sample settled0 added0"
proof -
  have b: "board settled0 = Board emptyBoard" by (simp add: settled0_eq)
  have n: "new_object (AddTask Do (js ''Call dentist'') None None env1) emptyBoard"
    by (simp add: trim_def is_ws_def js_def)
  have "handle (AddTask Do (js ''Call dentist'') None None env1) settled0
     (settled0\<lparr>board := Board (apply_op (AddTask Do (js ''Call dentist'') None None env1)
                                emptyBoard),
               board_obj := (if new_object (AddTask Do (js ''Call dentist'') None None env1)
                                emptyBoard
                             then Suc (board_obj settled0) else board_obj settled0)\<rparr>)"
    using b by (rule handle.on_board) simp
  with n have h: "handle (AddTask Do (js ''Call dentist'') None None env1) settled0
     (settled0\<lparr>board := Board (apply_op (AddTask Do (js ''Call dentist'') None None env1)
                                emptyBoard),
               board_obj := Suc (board_obj settled0)\<rparr>)" by simp
  have "rendered settled0 \<noteq> None" by (simp add: settled0_eq)
  from step.event [OF this h, of parse_sample stringify_sample]
  show ?thesis by (simp add: added0_def)
qed

lemma same_props_task_json: "same_props (task_json t) (task_json t)"
  by (simp add: same_props_def task_json_def)

lemma represents_board_json: "represents b (board_json b)"
  by (simp add: represents_def board_json_def key_name_def list_all2_map2
      same_props_task_json list_all2_same)

lemma represents_reordered:
  "represents (emptyBoard(Do := [task_x])) board_reordered \<and>
   board_reordered \<noteq> board_json (emptyBoard(Do := [task_x]))"
  by (simp add: represents_def board_reordered_def task_x_reordered_def key_name_def
      same_props_def task_json_def task_x_def emptyBoard_def board_json_def) auto

text \<open>
  C8. In every state the component reaches, over any storage and with any stored value:
  each call of \<open>saveState\<close> has the call of \<open>loadState\<close> before it, while
  \<open>hydrated\<close> is false nothing has been saved, once it is true the load has been
  made, and the load is made at most once. The first commit can always be made and
  ends hydrated with the load as its only call. A hydrated component whose board or
  \<open>hydrated\<close> differs from the last commit saves the whole board it holds in its next
  commit. And every step of a hydrated component that changes the board (another
  object or another value in the state) ends with the call of \<open>saveState\<close> on the
  whole new board, after at most the removal of the item by the reset, and with the
  new board as the committed one.
\<close>

theorem no_save_before_load:
  assumes "reach JSON_parse JSON_stringify ls c"
  shows "(\<forall>i < length (calls c). \<forall>v. calls c ! i = Save v \<longrightarrow> (\<exists>j < i. calls c ! j = Load)) \<and>
         (hydrated c \<longrightarrow> Load \<in> set (calls c)) \<and>
         (\<not> hydrated c \<longrightarrow> (\<forall>v. Save v \<notin> set (calls c))) \<and>
         count_list (calls c) Load \<le> 1 \<and>
         (rendered c = None \<longrightarrow>
            (\<exists>c'. step JSON_parse JSON_stringify c c' \<and> hydrated c' \<and> calls c' = [Load])) \<and>
         (hydrated c \<and> rendered c \<noteq> Some (board_obj c, hydrated c) \<longrightarrow>
            step JSON_parse JSON_stringify c (commit JSON_stringify c) \<and>
            calls (commit JSON_stringify c) = calls c @ [Save (held_json (board c))]) \<and>
         (\<forall>c'. step JSON_parse JSON_stringify c c' \<and> hydrated c \<and>
               (board c' \<noteq> board c \<or> board_obj c' \<noteq> board_obj c) \<longrightarrow>
            (\<exists>pre ls1. calls c' = calls c @ pre @ [Save (held_json (board c'))] \<and>
               set pre \<subseteq> {Remove} \<and>
               (ls1 = storage c \<or> removeItem (storage c) STORAGE_KEY = Inr ls1) \<and>
               storage c' = save_held JSON_stringify (board c') ls1) \<and>
            rendered c' = Some (board_obj c', True))"
proof -
  from assms have s: "sound c" by (rule sound_reach)
  then have n: "no_early_save (calls c)" and h: "hydrated c \<longrightarrow> Load \<in> set (calls c)"
    and u: "\<not> hydrated c \<longrightarrow> (\<forall>v. Save v \<notin> set (calls c))"
    by (simp_all add: sound_def)
  from assms have o: "once c" by (rule once_reach)
  then have k: "count_list (calls c) Load \<le> 1" by (simp add: once_def)
  have 1: "\<forall>i < length (calls c). \<forall>v. calls c ! i = Save v \<longrightarrow> (\<exists>j < i. calls c ! j = Load)"
    using n by (blast dest: no_early_save_nth)
  have 5: "\<exists>c'. step JSON_parse JSON_stringify c c' \<and> hydrated c' \<and> calls c' = [Load]"
    if "rendered c = None"
  proof -
    from assms that have "c = init ls" by (rule reach_unmounted)
    then show ?thesis by (simp add: mount_possible)
  qed
  have 6: "step JSON_parse JSON_stringify c (commit JSON_stringify c) \<and>
      calls (commit JSON_stringify c) = calls c @ [Save (held_json (board c))]"
    if a: "hydrated c \<and> rendered c \<noteq> Some (board_obj c, hydrated c)"
  proof -
    from a o have "rendered c \<noteq> None" by (auto simp: once_def)
    then have "step JSON_parse JSON_stringify c (commit JSON_stringify c)"
      by (rule step.rerender)
    moreover from a have "hydrated c" by simp
    moreover from a have "rendered c \<noteq> Some (board_obj c, True)" by auto
    ultimately show ?thesis by (simp add: commit_def effect2_def)
  qed
  have 7: "(\<exists>pre ls1. calls c' = calls c @ pre @ [Save (held_json (board c'))] \<and>
               set pre \<subseteq> {Remove} \<and>
               (ls1 = storage c \<or> removeItem (storage c) STORAGE_KEY = Inr ls1) \<and>
               storage c' = save_held JSON_stringify (board c') ls1) \<and>
            rendered c' = Some (board_obj c', True)"
    if a: "step JSON_parse JSON_stringify c c' \<and> hydrated c \<and>
           (board c' \<noteq> board c \<or> board_obj c' \<noteq> board_obj c)" for c'
  proof -
    from a have "step JSON_parse JSON_stringify c c'" "hydrated c"
      "board c' \<noteq> board c \<or> board_obj c' \<noteq> board_obj c" by simp_all
    from step_change_saves [OF this(1) o this(2,3)] show ?thesis .
  qed
  from 1 h u k 5 6 7 show ?thesis by blast
qed

theorem no_save_before_load_witness:
  "reach parse_sample stringify_sample storage0 settled0 \<and>
   hydrated settled0 \<and>
   calls settled0 = [Load, Save (board_json emptyBoard)] \<and>
   step parse_sample stringify_sample settled0 added0 \<and>
   board_obj added0 \<noteq> board_obj settled0 \<and>
   board added0 = Board (emptyBoard(Do := [\<lparr>task_id = js ''8a3f-1234'',
       title = js ''Call dentist'', notes = None, done = False, createdAt = 4661,
       dueDate = None\<rparr>])) \<and>
   calls added0 = [Load, Save (board_json emptyBoard), Save (held_json (board added0))] \<and>
   rendered added0 = Some (board_obj added0, True)"
proof -
  have h: "hydrated settled0" and c: "calls settled0 = [Load, Save (board_json emptyBoard)]"
    by (simp_all add: settled0_eq)
  have o: "board_obj added0 \<noteq> board_obj settled0"
    by (simp add: added0_def commit_keeps_board)
  have "now_task env1 = 4661" by (simp add: env1_def)
  then have a: "apply_op (AddTask Do (js ''Call dentist'') None None env1) emptyBoard =
      emptyBoard(Do := [\<lparr>task_id = js ''8a3f-1234'', title = js ''Call dentist'',
                                notes = None, done = False, createdAt = 4661,
                                dueDate = None\<rparr>])"
    by (simp add: addTask_def uid_env1 trim_def is_ws_def js_def emptyBoard_def)
  have b: "board added0 = Board (emptyBoard(Do := [\<lparr>task_id = js ''8a3f-1234'',
       title = js ''Call dentist'', notes = None, done = False, createdAt = 4661,
       dueDate = None\<rparr>]))"
    unfolding a [symmetric] by (simp add: added0_def commit_keeps_board)
  from step_added0 h o have p: "step parse_sample stringify_sample settled0 added0 \<and>
      hydrated settled0 \<and>
      (board added0 \<noteq> board settled0 \<or> board_obj added0 \<noteq> board_obj settled0)" by blast
  note t = no_save_before_load [OF reach_settled0, THEN conjunct2, THEN conjunct2,
      THEN conjunct2, THEN conjunct2, THEN conjunct2, THEN conjunct2, THEN spec, THEN mp, OF p]
  from t obtain pre where k: "calls added0 = calls settled0 @ pre @ [Save (held_json (board added0))]"
    and r: "rendered added0 = Some (board_obj added0, True)" by blast
  have "calls added0 = [Load, Save (board_json emptyBoard), Save (held_json (board added0))]"
    by (simp add: added0_def commit_def effect2_def settled0_eq)
  with reach_settled0 h c step_added0 o b r show ?thesis by blast
qed


end
